theory Spec2Isabelle
  imports Main "HOL-Library.Multiset"
begin

section \<open>Data model\<close>

text \<open>
  The server keeps one mutable game object per room (\<^verbatim>\<open>createGameState\<close> in
  \<^verbatim>\<open>backend/gameLogic.js\<close>) and mutates it in the socket handlers of
  \<^verbatim>\<open>backend/index.js\<close>. The embedding passes the game explicitly: a handler
  takes the game, the id of the sending socket and the payload, and returns the
  game it leaves behind, or the exception it throws.

  A card is the object \<^verbatim>\<open>{ id, suit, value, isFaceUp }\<close> of \<^verbatim>\<open>createDeck\<close>, with the two
  flags \<^verbatim>\<open>knownToPlayer\<close> and \<^verbatim>\<open>knownToOpponent\<close> that the handlers add later; a flag
  that was never set is \<^verbatim>\<open>undefined\<close> in the source and reads as false everywhere, so
  it is \<open>False\<close> here. The fields \<^verbatim>\<open>id\<close> and \<^verbatim>\<open>value\<close> are \<open>card_id\<close> and \<open>cvalue\<close>.
\<close>

record card =
  card_id :: string
  suit :: string
  cvalue :: string
  isFaceUp :: bool
  knownToPlayer :: bool
  knownToOpponent :: bool

text \<open>
  What a JavaScript array element (or a card-valued field) can hold. The source
  tells \<^verbatim>\<open>null\<close> from \<^verbatim>\<open>undefined\<close> (\<^verbatim>\<open>c !== null\<close>, \<^verbatim>\<open>c === null || c.isFaceUp\<close>),
  and the array methods \<^verbatim>\<open>every\<close>, \<^verbatim>\<open>some\<close>, \<^verbatim>\<open>filter\<close>, \<^verbatim>\<open>forEach\<close> and \<^verbatim>\<open>reduce\<close> skip
  the holes that a write past the end of an array leaves behind, so all four
  cases are kept apart.
\<close>

datatype slot = SNull | SUndef | SHole | SCard card

text \<open>\<^verbatim>\<open>xs[i]\<close> for an array index \<open>i\<close>: a hole and an index past the end read as \<^verbatim>\<open>undefined\<close>.\<close>

definition js_get :: "slot list \<Rightarrow> nat \<Rightarrow> slot" where
  "js_get xs i = (if i < length xs then (case xs ! i of SHole \<Rightarrow> SUndef | s \<Rightarrow> s) else SUndef)"

text \<open>\<^verbatim>\<open>xs[i] = v\<close>: a write past the end extends the array, leaving holes in between.\<close>

definition js_set :: "slot list \<Rightarrow> nat \<Rightarrow> slot \<Rightarrow> slot list" where
  "js_set xs i v = (if i < length xs then xs[i := v] else xs @ replicate (i - length xs) SHole @ [v])"

text \<open>\<^verbatim>\<open>xs[i]\<close> for a list of ids (\<^verbatim>\<open>playerOrder\<close>): \<open>None\<close> is \<^verbatim>\<open>undefined\<close>.\<close>

definition nth_opt :: "'a list \<Rightarrow> nat \<Rightarrow> 'a option" where
  "nth_opt xs i = (if i < length xs then Some (xs ! i) else None)"

text \<open>The cards an array holds, in order (what \<^verbatim>\<open>if (c)\<close> lets through).\<close>

fun cards_of :: "slot list \<Rightarrow> card list" where
  "cards_of [] = []"
| "cards_of (SCard c # xs) = c # cards_of xs"
| "cards_of (_ # xs) = cards_of xs"

record player =
  pid :: string
  number :: nat
  name :: string
  hand :: "slot list"
  score :: "int option"
  ready :: bool
  isFinalTurn :: bool

text \<open>
  \<open>score\<close> is a JavaScript number; \<open>None\<close> stands for \<^verbatim>\<open>NaN\<close>, which \<^verbatim>\<open>parseInt\<close> yields
  on a rank that is no numeral.

  \<^verbatim>\<open>activeAbility\<close> is \<^verbatim>\<open>null\<close> or \<^verbatim>\<open>{ type, player }\<close>; the first phase of a Jack adds
  \<^verbatim>\<open>jackPhase = 'opponent_choose'\<close> and \<^verbatim>\<open>jackMyIndex\<close> together (index.js, lines 361-362),
  so \<open>jackPhase = Some i\<close> stands for that phase with \<^verbatim>\<open>jackMyIndex\<close> \<open>i\<close>, and \<open>None\<close> for
  both fields absent.
\<close>

record ability =
  ability_type :: string
  ability_player :: string
  jackPhase :: "nat option"

record stack_window =
  active :: bool
  caller :: "string option"
  targetValue :: "string option"

datatype status = Lobby | Phase1 | Playing | Finished

record game =
  status :: status
  players :: "string \<rightharpoonup> player"
  playerOrder :: "string list"
  turnIndex :: nat
  deck :: "card list"
  discardPile :: "card list"
  drawnCard :: slot
  activeAbility :: "ability option"
  stackWindow :: stack_window
  endTriggeredBy :: "string option"

text \<open>
  The only exception the handlers can raise is the \<^verbatim>\<open>TypeError\<close> of reading or
  writing a property of \<^verbatim>\<open>undefined\<close> or \<^verbatim>\<open>null\<close>. Nothing catches it.
\<close>

datatype error = TypeError

section \<open>gameLogic.js\<close>

definition SUITS :: "string list" where
  "SUITS = [''hearts'', ''diamonds'', ''clubs'', ''spades'']"

definition VALUES :: "string list" where
  "VALUES = [''A'', ''2'', ''3'', ''4'', ''5'', ''6''] @ [''7'', ''8'', ''9'', ''10'', ''J'', ''Q'', ''K'']"

definition new_card :: "string \<Rightarrow> string \<Rightarrow> string \<Rightarrow> card" where
  "new_card i s v = \<lparr>card_id = i, suit = s, cvalue = v, isFaceUp = False,
     knownToPlayer = False, knownToOpponent = False\<rparr>"

definition createDeck :: "card list" where
  "createDeck =
     concat (map (\<lambda>s. map (\<lambda>v. new_card (v @ ''_'' @ s) s v) VALUES) SUITS)
     @ [new_card ''Joker_1'' ''none'' ''Joker'', new_card ''Joker_2'' ''none'' ''Joker'']"

text \<open>
  \<^verbatim>\<open>parseInt\<close> on a rank: the longest prefix of decimal digits, read in base ten, and
  \<^verbatim>\<open>NaN\<close> (\<open>None\<close>) when the string does not start with a digit. (Leading blanks, a
  sign and the \<^verbatim>\<open>0x\<close> prefix, which \<^verbatim>\<open>parseInt\<close> also accepts, occur in no rank.)
\<close>

definition digit_of :: "char \<Rightarrow> int option" where
  "digit_of = map_of [(CHR ''0'', 0), (CHR ''1'', 1), (CHR ''2'', 2), (CHR ''3'', 3),
     (CHR ''4'', 4), (CHR ''5'', 5), (CHR ''6'', 6), (CHR ''7'', 7), (CHR ''8'', 8), (CHR ''9'', 9)]"

fun parse_digits :: "int option \<Rightarrow> string \<Rightarrow> int option" where
  "parse_digits acc [] = acc"
| "parse_digits acc (c # cs) =
     (case digit_of c of
        None \<Rightarrow> acc
      | Some d \<Rightarrow> parse_digits (Some (10 * (case acc of None \<Rightarrow> 0 | Some a \<Rightarrow> a) + d)) cs)"

definition parseInt :: "string \<Rightarrow> int option" where
  "parseInt s = parse_digits None s"

definition getCardValue :: "card \<Rightarrow> int option" where
  "getCardValue c =
     (if cvalue c = ''Joker'' then Some (- 1)
      else if cvalue c = ''Q'' \<and> (suit c = ''hearts'' \<or> suit c = ''diamonds'') then Some 0
      else if cvalue c = ''A'' then Some 1
      else if cvalue c = ''J'' \<or> cvalue c = ''Q'' \<or> cvalue c = ''K'' then Some 10
      else parseInt (cvalue c))"

text \<open>The reducer of \<^verbatim>\<open>calculateScore\<close>; \<^verbatim>\<open>acc + NaN\<close> and \<^verbatim>\<open>NaN + v\<close> are \<^verbatim>\<open>NaN\<close>.\<close>

definition score_step :: "int option \<Rightarrow> slot \<Rightarrow> int option" where
  "score_step acc s =
     (case s of
        SCard c \<Rightarrow> (case (acc, getCardValue c) of (Some a, Some v) \<Rightarrow> Some (a + v) | _ \<Rightarrow> None)
      | _ \<Rightarrow> acc)"

definition calculateScore :: "slot list \<Rightarrow> int option" where
  "calculateScore h = foldl score_step (Some 0) h"

text \<open>
  The point value as section 4.1 of the specification words it, for comparison
  with \<open>getCardValue\<close>: Joker -1, Queen of hearts or diamonds 0, Ace 1, Jack, the
  other Queens and King 10, a numeral rank its number. The specification gives
  no value to any other rank; 0 is a placeholder there.
\<close>

definition spec_value :: "card \<Rightarrow> int" where
  "spec_value c =
     (if cvalue c = ''Joker'' then - 1
      else if cvalue c = ''Q'' then (if suit c = ''hearts'' \<or> suit c = ''diamonds'' then 0 else 10)
      else if cvalue c = ''A'' then 1
      else if cvalue c = ''J'' \<or> cvalue c = ''K'' then 10
      else (case map_of [(''2'', 2), (''3'', 3), (''4'', 4), (''5'', 5), (''6'', 6),
                         (''7'', 7), (''8'', 8), (''9'', 9), (''10'', 10)] (cvalue c) of
              Some n \<Rightarrow> n | None \<Rightarrow> 0))"

text \<open>A card is one of the 54 when its id, suit and rank are those of a card of \<open>createDeck\<close>.\<close>

definition is_deck_card :: "card \<Rightarrow> bool" where
  "is_deck_card c =
     list_ex (\<lambda>d. card_id d = card_id c \<and> suit d = suit c \<and> cvalue d = cvalue c) createDeck"

section \<open>index.js: the turn engine\<close>

text \<open>
  \<^verbatim>\<open>game.players[p].hand[i]\<close> and \<^verbatim>\<open>game.players[p].hand[i] = v\<close> for a player the
  handler has already looked up: every handler below raises \<open>TypeError\<close> on a
  missing player before it reaches one of these.
\<close>

definition get_hand_slot :: "game \<Rightarrow> string \<Rightarrow> nat \<Rightarrow> slot" where
  "get_hand_slot g p i = (case players g p of None \<Rightarrow> SUndef | Some pl \<Rightarrow> js_get (hand pl) i)"

definition set_hand_slot :: "game \<Rightarrow> string \<Rightarrow> nat \<Rightarrow> slot \<Rightarrow> game" where
  "set_hand_slot g p i v =
     (case players g p of
        None \<Rightarrow> g
      | Some pl \<Rightarrow> g\<lparr>players := (players g)(p \<mapsto> pl\<lparr>hand := js_set (hand pl) i v\<rparr>)\<rparr>)"

text \<open>\<^verbatim>\<open>['K', 'J', '8', '6'].includes(v)\<close>\<close>

definition is_ability :: "string \<Rightarrow> bool" where
  "is_ability v = (v = ''K'' \<or> v = ''J'' \<or> v = ''8'' \<or> v = ''6'')"

text \<open>
  \<^verbatim>\<open>promptEndGame\<close> (lines 471-482): the status becomes \<^verbatim>\<open>finished\<close>; for each id of
  \<^verbatim>\<open>playerOrder\<close> every card of the hand is turned face up and the score is computed.
\<close>

fun reveal_slot :: "slot \<Rightarrow> slot" where
  "reveal_slot (SCard c) = SCard (c\<lparr>isFaceUp := True\<rparr>)"
| "reveal_slot s = s"

fun score_players :: "string list \<Rightarrow> (string \<rightharpoonup> player) \<Rightarrow> error + (string \<rightharpoonup> player)" where
  "score_players [] ps = Inr ps"
| "score_players (p # po) ps =
     (case ps p of
        None \<Rightarrow> Inl TypeError
      | Some pl \<Rightarrow>
          score_players po
            (ps(p \<mapsto> pl\<lparr>hand := map reveal_slot (hand pl),
                         score := calculateScore (map reveal_slot (hand pl))\<rparr>)))"

definition promptEndGame :: "game \<Rightarrow> error + game" where
  "promptEndGame g =
     (case score_players (playerOrder g) (players g) of
        Inl e \<Rightarrow> Inl e
      | Inr ps \<Rightarrow> Inr (g\<lparr>status := Finished, players := ps\<rparr>))"

text \<open>
  \<^verbatim>\<open>advanceTurn\<close> (lines 484-497). Its two callers reach it only when
  \<^verbatim>\<open>playerOrder[turnIndex]\<close> is a player id, so \<^verbatim>\<open>playerOrder\<close> is not empty there and the
  remainder is a number.
\<close>

definition advanceTurn :: "game \<Rightarrow> error + game" where
  "advanceTurn g =
     (let t = (turnIndex g + 1) mod length (playerOrder g);
          g1 = g\<lparr>turnIndex := t, drawnCard := SNull\<rparr>
      in case nth_opt (playerOrder g1) t of
           None \<Rightarrow> Inr g1
         | Some nextPlayerId \<Rightarrow>
             if endTriggeredBy g1 = Some nextPlayerId then promptEndGame g1 else Inr g1)"

text \<open>
  \<^verbatim>\<open>player.hand.every(c => c === null || c.isFaceUp)\<close>: \<^verbatim>\<open>every\<close> skips holes and stops
  at the first false answer; on an element that is \<^verbatim>\<open>undefined\<close> the callback reads
  \<^verbatim>\<open>undefined.isFaceUp\<close> and throws.
\<close>

fun allFaceUp :: "slot list \<Rightarrow> error + bool" where
  "allFaceUp [] = Inr True"
| "allFaceUp (SNull # xs) = allFaceUp xs"
| "allFaceUp (SHole # xs) = allFaceUp xs"
| "allFaceUp (SUndef # xs) = Inl TypeError"
| "allFaceUp (SCard c # xs) = (if isFaceUp c then allFaceUp xs else Inr False)"

text \<open>\<^verbatim>\<open>checkEndGameAndAdvance\<close> (lines 456-469).\<close>

definition checkEndGameAndAdvance :: "game \<Rightarrow> error + game" where
  "checkEndGameAndAdvance g =
     (case nth_opt (playerOrder g) (turnIndex g) of
        None \<Rightarrow> Inl TypeError
      | Some currentPlayerId \<Rightarrow>
          (case players g currentPlayerId of
             None \<Rightarrow> Inl TypeError
           | Some pl \<Rightarrow>
               (case allFaceUp (hand pl) of
                  Inl e \<Rightarrow> Inl e
                | Inr afu \<Rightarrow>
                    if afu \<and> \<not> isFinalTurn pl
                    then promptEndGame
                           (g\<lparr>players := (players g)(currentPlayerId \<mapsto> pl\<lparr>isFinalTurn := True\<rparr>)\<rparr>)
                    else advanceTurn g)))"

text \<open>\<^verbatim>\<open>handleDiscard\<close> (lines 434-454).\<close>

definition handleDiscard :: "game \<Rightarrow> slot \<Rightarrow> string \<Rightarrow> error + game" where
  "handleDiscard g discarded socketId =
     (case discarded of
        SCard c \<Rightarrow>
          (let g1 = g\<lparr>discardPile := discardPile g @ [c\<lparr>isFaceUp := True\<rparr>]\<rparr>
           in if is_ability (cvalue c)
              then Inr (g1\<lparr>activeAbility :=
                          Some \<lparr>ability_type = cvalue c, ability_player = socketId, jackPhase = None\<rparr>\<rparr>)
              else checkEndGameAndAdvance g1)
      | _ \<Rightarrow> checkEndGameAndAdvance g)"

text \<open>\<^verbatim>\<open>if (x)\<close> on a card-valued field: only a card is truthy.\<close>

fun is_card :: "slot \<Rightarrow> bool" where
  "is_card (SCard c) = True"
| "is_card s = False"

text \<open>\<^verbatim>\<open>draw_deck\<close> (lines 107-115). \<^verbatim>\<open>[].pop()\<close> is \<^verbatim>\<open>undefined\<close>.\<close>

definition draw_deck :: "game \<Rightarrow> string \<Rightarrow> error + game" where
  "draw_deck g socketId =
     (if nth_opt (playerOrder g) (turnIndex g) = Some socketId
      then if is_card (drawnCard g) \<or> activeAbility g \<noteq> None then Inr g
           else if deck g = [] then Inr (g\<lparr>drawnCard := SUndef\<rparr>)
           else Inr (g\<lparr>drawnCard := SCard (last (deck g)), deck := butlast (deck g)\<rparr>)
      else Inr g)"

text \<open>\<^verbatim>\<open>draw_discard\<close> (lines 118-138).\<close>

definition draw_discard :: "game \<Rightarrow> string \<Rightarrow> nat \<Rightarrow> error + game" where
  "draw_discard g socketId handIndex =
     (if nth_opt (playerOrder g) (turnIndex g) = Some socketId
      then if is_card (drawnCard g) \<or> activeAbility g \<noteq> None \<or> discardPile g = [] then Inr g
           else (case players g socketId of
                   None \<Rightarrow> Inl TypeError
                 | Some pl \<Rightarrow>
                     (let discardCard = last (discardPile g);
                          g1 = g\<lparr>discardPile := butlast (discardPile g)\<rparr>;
                          oldCard = js_get (hand pl) handIndex;
                          g2 = set_hand_slot g1 socketId handIndex
                                 (SCard (discardCard\<lparr>isFaceUp := False, knownToPlayer := False\<rparr>))
                      in handleDiscard g2 oldCard socketId))
      else Inr g)"

text \<open>\<^verbatim>\<open>swap_drawn_card\<close> (lines 141-161).\<close>

definition swap_drawn_card :: "game \<Rightarrow> string \<Rightarrow> nat \<Rightarrow> error + game" where
  "swap_drawn_card g socketId handIndex =
     (if nth_opt (playerOrder g) (turnIndex g) = Some socketId
      then (case drawnCard g of
              SCard d \<Rightarrow>
                (case players g socketId of
                   None \<Rightarrow> Inl TypeError
                 | Some pl \<Rightarrow>
                     (let oldCard = js_get (hand pl) handIndex;
                          g1 = set_hand_slot g socketId handIndex
                                 (SCard (d\<lparr>isFaceUp := False, knownToPlayer := False\<rparr>));
                          g2 = g1\<lparr>drawnCard := SNull\<rparr>
                      in handleDiscard g2 oldCard socketId))
            | _ \<Rightarrow> Inr g)
      else Inr g)"

text \<open>\<^verbatim>\<open>discard_drawn_card\<close> (lines 164-178).\<close>

definition discard_drawn_card :: "game \<Rightarrow> string \<Rightarrow> error + game" where
  "discard_drawn_card g socketId =
     (if nth_opt (playerOrder g) (turnIndex g) = Some socketId
      then (case drawnCard g of
              SCard d \<Rightarrow> handleDiscard (g\<lparr>drawnCard := SNull\<rparr>) (SCard d) socketId
            | _ \<Rightarrow> Inr g)
      else Inr g)"

text \<open>\<^verbatim>\<open>call_stack\<close> (lines 181-194).\<close>

definition call_stack :: "game \<Rightarrow> string \<Rightarrow> error + game" where
  "call_stack g socketId =
     (if discardPile g = [] then Inr g
      else if active (stackWindow g) then Inr g
      else Inr (g\<lparr>stackWindow := \<lparr>active = True, caller = Some socketId,
                    targetValue = Some (cvalue (last (discardPile g)))\<rparr>\<rparr>))"

text \<open>\<^verbatim>\<open>call_it\<close> (lines 237-247).\<close>

definition call_it :: "game \<Rightarrow> string \<Rightarrow> error + game" where
  "call_it g socketId =
     (if nth_opt (playerOrder g) (turnIndex g) = Some socketId
      then if is_card (drawnCard g) \<or> activeAbility g \<noteq> None \<or> active (stackWindow g)
              \<or> status g \<noteq> Playing
           then Inr g
           else advanceTurn (g\<lparr>endTriggeredBy := Some socketId\<rparr>)
      else Inr g)"

section \<open>index.js: the stack interrupt\<close>

text \<open>
  The match branch of \<^verbatim>\<open>execute_stack\<close> (lines 261-302), for the chosen card \<open>c\<close> of
  the target's slot \<open>handIndex\<close>. \<open>give\<close> is \<^verbatim>\<open>offensiveGiveIndex\<close>, \<open>None\<close> when the
  payload has none (\<^verbatim>\<open>hand[undefined]\<close> is \<^verbatim>\<open>undefined\<close>).
  \<^verbatim>\<open>callerPlayer.hand.filter(c => c !== null)\<close> skips holes and keeps everything that
  is not \<^verbatim>\<open>null\<close>, an \<^verbatim>\<open>undefined\<close> element included.
\<close>

definition stackerCards :: "slot list \<Rightarrow> slot list" where
  "stackerCards h = filter (\<lambda>s. s \<noteq> SNull \<and> s \<noteq> SHole) h"

definition stack_match :: "game \<Rightarrow> string \<Rightarrow> string \<Rightarrow> nat \<Rightarrow> nat option \<Rightarrow> card \<Rightarrow> game" where
  "stack_match g socketId targetPlayerId handIndex give c =
     (let g1 = set_hand_slot g targetPlayerId handIndex SNull;
          g2 = g1\<lparr>discardPile := discardPile g1 @ [c\<lparr>isFaceUp := True\<rparr>]\<rparr>;
          g3 = (if targetPlayerId \<noteq> socketId
                then (case give of
                        None \<Rightarrow> g2
                      | Some k \<Rightarrow>
                          (case get_hand_slot g2 socketId k of
                             SCard givenCard \<Rightarrow>
                               set_hand_slot (set_hand_slot g2 socketId k SNull) targetPlayerId handIndex
                                 (SCard (givenCard\<lparr>isFaceUp := False, knownToPlayer := False\<rparr>))
                           | _ \<Rightarrow> g2))
                else g2);
          g4 = g3\<lparr>activeAbility := None\<rparr>
      in if is_ability (cvalue c)
            \<and> (cvalue c = ''8'' \<or> stackerCards (case players g4 socketId of None \<Rightarrow> [] | Some cp \<Rightarrow> hand cp) \<noteq> [])
         then g4\<lparr>activeAbility :=
                   Some \<lparr>ability_type = cvalue c, ability_player = socketId, jackPhase = None\<rparr>\<rparr>
         else g4)"

text \<open>The mismatch branch (lines 303-318): one penalty card, if the deck has one.\<close>

definition stack_mismatch :: "game \<Rightarrow> string \<Rightarrow> game" where
  "stack_mismatch g socketId =
     (if deck g \<noteq> []
      then (case players g socketId of
              None \<Rightarrow> g
            | Some cp \<Rightarrow>
                g\<lparr>deck := butlast (deck g),
                   players := (players g)(socketId \<mapsto>
                     cp\<lparr>hand := hand cp @ [SCard ((last (deck g))\<lparr>isFaceUp := False, knownToPlayer := False\<rparr>)]\<rparr>)\<rparr>)
      else g)"

text \<open>
  \<^verbatim>\<open>game.playerOrder.some(pId => game.players[pId].hand.every(c => c === null))\<close>:
  \<^verbatim>\<open>some\<close> stops at the first true answer, \<^verbatim>\<open>every\<close> skips holes.
\<close>

fun anyEmpty :: "string list \<Rightarrow> (string \<rightharpoonup> player) \<Rightarrow> error + bool" where
  "anyEmpty [] ps = Inr False"
| "anyEmpty (p # po) ps =
     (case ps p of
        None \<Rightarrow> Inl TypeError
      | Some pl \<Rightarrow> if list_all (\<lambda>s. s = SNull \<or> s = SHole) (hand pl) then Inr True else anyEmpty po ps)"

text \<open>The end of \<^verbatim>\<open>execute_stack\<close> (lines 320-339), after either branch.\<close>

definition stack_finish :: "bool \<Rightarrow> game \<Rightarrow> error + game" where
  "stack_finish callerMatches g =
     (let g1 = g\<lparr>stackWindow := \<lparr>active = False, caller = None, targetValue = None\<rparr>\<rparr>
      in if callerMatches
         then (case anyEmpty (playerOrder g1) (players g1) of
                 Inl e \<Rightarrow> Inl e
               | Inr True \<Rightarrow> promptEndGame (g1\<lparr>activeAbility := None\<rparr>)
               | Inr False \<Rightarrow>
                   if activeAbility g1 = None then checkEndGameAndAdvance g1 else Inr g1)
         else Inr g1)"

text \<open>
  \<^verbatim>\<open>execute_stack\<close> (lines 250-340). \<^verbatim>\<open>targetPlayer.hand\<close> throws when
  \<^verbatim>\<open>targetPlayerId\<close> is no key of \<^verbatim>\<open>players\<close>, \<^verbatim>\<open>callerPlayer.name\<close> when the caller is none.
\<close>

definition execute_stack :: "game \<Rightarrow> string \<Rightarrow> string \<Rightarrow> nat \<Rightarrow> nat option \<Rightarrow> error + game" where
  "execute_stack g socketId targetPlayerId handIndex give =
     (if active (stackWindow g) \<and> caller (stackWindow g) = Some socketId
      then (case players g targetPlayerId of
              None \<Rightarrow> Inl TypeError
            | Some targetPlayer \<Rightarrow>
                (case players g socketId of
                   None \<Rightarrow> Inl TypeError
                 | Some callerPlayer \<Rightarrow>
                     (case js_get (hand targetPlayer) handIndex of
                        SCard c \<Rightarrow>
                          if targetValue (stackWindow g) = Some (cvalue c)
                          then stack_finish True (stack_match g socketId targetPlayerId handIndex give c)
                          else stack_finish False (stack_mismatch g socketId)
                      | _ \<Rightarrow> stack_finish False (stack_mismatch g socketId))))
      else Inr g)"

section \<open>index.js: the abilities\<close>

text \<open>The payload \<^verbatim>\<open>targetData\<close> of \<^verbatim>\<open>play_ability_target\<close>.\<close>

record target_data =
  myIndex :: nat
  opponentId :: string
  oppIndex :: nat

text \<open>The common end of the ability handlers (lines 392-393 and 421-422).\<close>

definition ability_done :: "game \<Rightarrow> error + game" where
  "ability_done g = checkEndGameAndAdvance (g\<lparr>activeAbility := None\<rparr>)"

text \<open>
  The exchange of two hand slots as the King and the Jack write it:
  \<^verbatim>\<open>temp = p1.hand[i]; p1.hand[i] = p2.hand[j]; p2.hand[j] = temp\<close>: the second write goes
  to the game the first one left (the two players may be the same one).
\<close>

definition swap_slots :: "game \<Rightarrow> string \<Rightarrow> nat \<Rightarrow> string \<Rightarrow> nat \<Rightarrow> game" where
  "swap_slots g p1 i p2 j =
     (let temp = get_hand_slot g p1 i;
          g1 = set_hand_slot g p1 i (get_hand_slot g p2 j)
      in set_hand_slot g1 p2 j temp)"

text \<open>\<^verbatim>\<open>play_ability_target\<close> (lines 343-394).\<close>

definition play_ability_target :: "game \<Rightarrow> string \<Rightarrow> string \<Rightarrow> target_data \<Rightarrow> error + game" where
  "play_ability_target g socketId ty targetData =
     (case activeAbility g of
        None \<Rightarrow> Inr g
      | Some ab \<Rightarrow>
          if ability_player ab = socketId \<and> ability_type ab = ty
          then if ty = ''K''
               then (case players g socketId of
                       None \<Rightarrow> Inl TypeError
                     | Some p1 \<Rightarrow>
                         (case players g (opponentId targetData) of
                            None \<Rightarrow> Inl TypeError
                          | Some p2 \<Rightarrow>
                              ability_done
                                (swap_slots g socketId (myIndex targetData)
                                   (opponentId targetData) (oppIndex targetData))))
               else if ty = ''J''
               then Inr (g\<lparr>activeAbility := Some (ab\<lparr>jackPhase := Some (myIndex targetData)\<rparr>)\<rparr>)
               else if ty = ''8''
               then (case players g (opponentId targetData) of
                       None \<Rightarrow> Inl TypeError
                     | Some opp \<Rightarrow>
                         (case js_get (hand opp) (oppIndex targetData) of
                            SCard c \<Rightarrow>
                              ability_done
                                (set_hand_slot g (opponentId targetData) (oppIndex targetData)
                                   (SCard (c\<lparr>knownToOpponent := True\<rparr>)))
                          | _ \<Rightarrow> Inl TypeError))
               else if ty = ''6''
               then (case players g socketId of
                       None \<Rightarrow> Inl TypeError
                     | Some p1 \<Rightarrow>
                         (case js_get (hand p1) (myIndex targetData) of
                            SCard c \<Rightarrow>
                              ability_done
                                (set_hand_slot g socketId (myIndex targetData)
                                   (SCard (c\<lparr>knownToPlayer := True\<rparr>)))
                          | _ \<Rightarrow> Inl TypeError))
               else ability_done g
          else Inr g)"

text \<open>\<^verbatim>\<open>jack_respond\<close> (lines 397-423).\<close>

definition jack_respond :: "game \<Rightarrow> string \<Rightarrow> nat \<Rightarrow> error + game" where
  "jack_respond g socketId myIdx =
     (case activeAbility g of
        None \<Rightarrow> Inr g
      | Some ab \<Rightarrow>
          if ability_type ab = ''J''
          then (case jackPhase ab of
                  None \<Rightarrow> Inr g
                | Some jackIndex \<Rightarrow>
                    if socketId = ability_player ab then Inr g
                    else (case players g (ability_player ab) of
                            None \<Rightarrow> Inl TypeError
                          | Some jackPlayer \<Rightarrow>
                              (case players g socketId of
                                 None \<Rightarrow> Inl TypeError
                               | Some opponent \<Rightarrow>
                                   ability_done
                                     (swap_slots g (ability_player ab) jackIndex socketId myIdx))))
          else Inr g)"

section \<open>index.js: joining and dealing\<close>

text \<open>\<^verbatim>\<open>createGameState\<close> (gameLogic.js, lines 28-40).\<close>

definition createGameState :: game where
  "createGameState =
     \<lparr>status = Lobby, players = Map.empty, playerOrder = [], turnIndex = 0, deck = [],
      discardPile = [], drawnCard = SNull, activeAbility = None,
      stackWindow = \<lparr>active = False, caller = None, targetValue = None\<rparr>,
      endTriggeredBy = None\<rparr>"

text \<open>\<^verbatim>\<open>join_game\<close> (lines 49-72), on the game of the room.\<close>

definition join_game :: "game \<Rightarrow> string \<Rightarrow> string \<Rightarrow> error + game" where
  "join_game g socketId playerName =
     (if length (playerOrder g) < 2 \<and> players g socketId = None
      then Inr (g\<lparr>players := (players g)(socketId \<mapsto>
                     \<lparr>pid = socketId, number = length (playerOrder g) + 1, name = playerName,
                      hand = [SNull, SNull, SNull, SNull], score = Some 0, ready = False,
                      isFinalTurn = False\<rparr>),
                   playerOrder := playerOrder g @ [socketId]\<rparr>)
      else Inr g)"

text \<open>\<^verbatim>\<open>deck.pop()\<close>: the last card and the rest, \<^verbatim>\<open>undefined\<close> on an empty deck.\<close>

definition pop_card :: "card list \<Rightarrow> slot \<times> card list" where
  "pop_card d = (if d = [] then (SUndef, []) else (SCard (last d), butlast d))"

text \<open>
  \<^verbatim>\<open>dealInitial\<close> (gameLogic.js, lines 42-59). The random outcome of
  \<^verbatim>\<open>shuffle(createDeck())\<close> is the argument \<open>shuffled\<close>. Writing \<^verbatim>\<open>knownToPlayer\<close> on a slot
  that the deck could not fill throws.
\<close>

fun deal_players :: "string list \<Rightarrow> (string \<rightharpoonup> player) \<Rightarrow> card list
    \<Rightarrow> error + ((string \<rightharpoonup> player) \<times> card list)" where
  "deal_players [] ps d = Inr (ps, d)"
| "deal_players (p # po) ps d =
     (case ps p of
        None \<Rightarrow> Inl TypeError
      | Some pl \<Rightarrow>
          (let (c0, d0) = pop_card d; (c1, d1) = pop_card d0;
               (c2, d2) = pop_card d1; (c3, d3) = pop_card d2
           in case (c2, c3) of
                (SCard a, SCard b) \<Rightarrow>
                  deal_players po
                    (ps(p \<mapsto> pl\<lparr>hand := [c0, c1, SCard (a\<lparr>knownToPlayer := True\<rparr>),
                                            SCard (b\<lparr>knownToPlayer := True\<rparr>)]\<rparr>)) d3
              | _ \<Rightarrow> Inl TypeError))"

definition dealInitial :: "game \<Rightarrow> card list \<Rightarrow> error + game" where
  "dealInitial g shuffled =
     (case deal_players (playerOrder g) (players g) shuffled of
        Inl e \<Rightarrow> Inl e
      | Inr (ps, d) \<Rightarrow> Inr (g\<lparr>players := ps, deck := d\<rparr>))"

text \<open>\<^verbatim>\<open>game.playerOrder.every(id => game.players[id].ready)\<close>\<close>

fun all_ready :: "string list \<Rightarrow> (string \<rightharpoonup> player) \<Rightarrow> error + bool" where
  "all_ready [] ps = Inr True"
| "all_ready (p # po) ps =
     (case ps p of
        None \<Rightarrow> Inl TypeError
      | Some pl \<Rightarrow> if ready pl then all_ready po ps else Inr False)"

text \<open>
  \<^verbatim>\<open>player_ready\<close> (lines 74-104). \<^verbatim>\<open>game.players[socket.id].ready = true\<close> throws for a
  socket that is no key of \<^verbatim>\<open>players\<close>. The timer it starts is \<open>phase1_timeout\<close>.
\<close>

definition player_ready :: "game \<Rightarrow> string \<Rightarrow> card list \<Rightarrow> error + game" where
  "player_ready g socketId shuffled =
     (case players g socketId of
        None \<Rightarrow> Inl TypeError
      | Some pl \<Rightarrow>
          (let g1 = g\<lparr>players := (players g)(socketId \<mapsto> pl\<lparr>ready := True\<rparr>)\<rparr>
           in case (if length (playerOrder g1) = 2 then all_ready (playerOrder g1) (players g1)
                    else Inr False) of
                Inl e \<Rightarrow> Inl e
              | Inr allReady \<Rightarrow>
                  if allReady \<and> status g1 = Lobby
                  then (case dealInitial g1 shuffled of
                          Inl e \<Rightarrow> Inl e
                        | Inr g2 \<Rightarrow> Inr (g2\<lparr>status := Phase1\<rparr>))
                  else Inr g1))"

text \<open>The callback of the ten-second timer (lines 89-100).\<close>

fun forget_players :: "string list \<Rightarrow> (string \<rightharpoonup> player) \<Rightarrow> error + (string \<rightharpoonup> player)" where
  "forget_players [] ps = Inr ps"
| "forget_players (p # po) ps =
     (case ps p of
        None \<Rightarrow> Inl TypeError
      | Some pl \<Rightarrow>
          (let h2 = (case js_get (hand pl) 2 of
                       SCard c \<Rightarrow> js_set (hand pl) 2 (SCard (c\<lparr>knownToPlayer := False\<rparr>))
                     | _ \<Rightarrow> hand pl);
               h3 = (case js_get h2 3 of
                       SCard c \<Rightarrow> js_set h2 3 (SCard (c\<lparr>knownToPlayer := False\<rparr>))
                     | _ \<Rightarrow> h2)
           in forget_players po (ps(p \<mapsto> pl\<lparr>hand := h3\<rparr>))))"

definition phase1_timeout :: "game \<Rightarrow> error + game" where
  "phase1_timeout g =
     (if status g = Phase1
      then (case forget_players (playerOrder g) (players g) of
              Inl e \<Rightarrow> Inl e
            | Inr ps \<Rightarrow> Inr (g\<lparr>status := Playing, players := ps\<rparr>))
      else Inr g)"

section \<open>index.js: a new round and the peek timers\<close>

text \<open>
  \<^verbatim>\<open>play_again\<close> (lines 197-234), from any socket of the room: a finished game is
  reset, the players keep their seats and get four cards each from a new shuffled
  deck \<open>shuffled\<close>. The timer it starts runs the same callback as the one of
  \<^verbatim>\<open>player_ready\<close>, which is \<open>phase1_timeout\<close>.
\<close>

fun reset_players :: "string list \<Rightarrow> (string \<rightharpoonup> player) \<Rightarrow> error + (string \<rightharpoonup> player)" where
  "reset_players [] ps = Inr ps"
| "reset_players (p # po) ps =
     (case ps p of
        None \<Rightarrow> Inl TypeError
      | Some pl \<Rightarrow>
          reset_players po
            (ps(p \<mapsto> pl\<lparr>hand := [SNull, SNull, SNull, SNull], score := Some 0,
                         isFinalTurn := False\<rparr>)))"

definition play_again :: "game \<Rightarrow> card list \<Rightarrow> error + game" where
  "play_again g shuffled =
     (if status g \<noteq> Finished then Inr g
      else (let g1 = g\<lparr>status := Phase1, turnIndex := 0, deck := [], discardPile := [],
                       drawnCard := SNull, activeAbility := None,
                       stackWindow := \<lparr>active = False, caller = None, targetValue = None\<rparr>,
                       endTriggeredBy := None\<rparr>
            in case reset_players (playerOrder g1) (players g1) of
                 Inl e \<Rightarrow> Inl e
               | Inr ps \<Rightarrow> dealInitial (g1\<lparr>players := ps\<rparr>) shuffled))"

text \<open>
  The callbacks of the two five-second timers that a peek starts (lines 373-378 for
  the 8, lines 384-389 for the 6). The timer holds the card object it revealed and
  clears \<^verbatim>\<open>knownToOpponent\<close> (\<^verbatim>\<open>knownToPlayer\<close> for the 6) on it, wherever the card
  lies by then: in a hand, on the discard pile or in \<open>drawnCard\<close> (no handler puts a
  card back into the deck). Cards are values here, so the card is found by its id
  \<open>cid\<close>. A card object that \<^verbatim>\<open>play_again\<close> has dropped is in the game no more; its
  timer changes nothing.
\<close>

fun on_card :: "(card \<Rightarrow> card) \<Rightarrow> slot \<Rightarrow> slot" where
  "on_card f (SCard c) = SCard (f c)"
| "on_card f s = s"

definition on_id :: "string \<Rightarrow> (card \<Rightarrow> card) \<Rightarrow> card \<Rightarrow> card" where
  "on_id cid f c = (if card_id c = cid then f c else c)"

definition peek_expired :: "(card \<Rightarrow> card) \<Rightarrow> game \<Rightarrow> string \<Rightarrow> game" where
  "peek_expired f g cid =
     g\<lparr>players := (\<lambda>p. case players g p of
                         None \<Rightarrow> None
                       | Some pl \<Rightarrow> Some (pl\<lparr>hand := map (on_card (on_id cid f)) (hand pl)\<rparr>)),
       discardPile := map (on_id cid f) (discardPile g),
       drawnCard := on_card (on_id cid f) (drawnCard g)\<rparr>"

definition peek8_expired :: "game \<Rightarrow> string \<Rightarrow> error + game" where
  "peek8_expired g cid = Inr (peek_expired (\<lambda>c. c\<lparr>knownToOpponent := False\<rparr>) g cid)"

definition peek6_expired :: "game \<Rightarrow> string \<Rightarrow> error + game" where
  "peek6_expired g cid = Inr (peek_expired (\<lambda>c. c\<lparr>knownToPlayer := False\<rparr>) g cid)"

section \<open>index.js: the snapshot a player is sent\<close>

text \<open>\<^verbatim>\<open>'hidden_' + i\<close>: the decimal digits of the index.\<close>

fun string_of_nat :: "nat \<Rightarrow> string" where
  "string_of_nat n =
     (if n < 10 then [''0123456789'' ! n]
      else string_of_nat (n div 10) @ [''0123456789'' ! (n mod 10)])"

declare string_of_nat.simps [simp del]

text \<open>
  \<^verbatim>\<open>JSON.parse(JSON.stringify(game))\<close> on a hand: holes and \<^verbatim>\<open>undefined\<close> elements come
  back as \<^verbatim>\<open>null\<close>. (A \<^verbatim>\<open>NaN\<close> score comes back as \<^verbatim>\<open>null\<close> too; nothing reads the
  score of the copy.)
\<close>

fun json_slot :: "slot \<Rightarrow> slot" where
  "json_slot (SCard c) = SCard c"
| "json_slot s = SNull"

text \<open>
  The callback of \<^verbatim>\<open>player.hand.forEach\<close> (lines 511-525) for the copy's status \<open>st\<close>,
  the slot \<open>i\<close> of a hand whose owner is the viewer or not (\<open>own\<close>).
\<close>

definition hide_card :: "string \<Rightarrow> card \<Rightarrow> card" where
  "hide_card i c = c\<lparr>cvalue := ''?'', suit := ''?'', card_id := i\<rparr>"

definition redact_slot :: "status \<Rightarrow> bool \<Rightarrow> nat \<Rightarrow> slot \<Rightarrow> slot" where
  "redact_slot st own i s =
     (case s of
        SCard c \<Rightarrow>
          if \<not> isFaceUp c \<and> st \<noteq> Finished
          then if (st = Phase1 \<and> own \<and> (i = 2 \<or> i = 3))
                  \<or> (knownToPlayer c \<and> own) \<or> (knownToOpponent c \<and> \<not> own)
               then SCard c
               else SCard (hide_card (''hidden_'' @ string_of_nat i) c)
          else SCard c
      | _ \<Rightarrow> s)"

definition redact_hand :: "status \<Rightarrow> bool \<Rightarrow> slot list \<Rightarrow> slot list" where
  "redact_hand st own h = map (\<lambda>(i, s). redact_slot st own i s) (enumerate 0 h)"

text \<open>\<^verbatim>\<open>sanitizeGameState\<close> (lines 505-536).\<close>

definition sanitizeGameState :: "game \<Rightarrow> string \<Rightarrow> game" where
  "sanitizeGameState g socketId =
     (let safeGame = g\<lparr>players :=
            (\<lambda>p. map_option (\<lambda>pl. pl\<lparr>hand := map json_slot (hand pl)\<rparr>) (players g p))\<rparr>
      in if status safeGame = Playing \<or> status safeGame = Phase1 \<or> status safeGame = Finished
         then safeGame
                \<lparr>players :=
                   (\<lambda>p. map_option
                           (\<lambda>pl. pl\<lparr>hand := redact_hand (status safeGame) (p = socketId) (hand pl)\<rparr>)
                           (players safeGame p)),
                 drawnCard :=
                   (case drawnCard safeGame of
                      SCard d \<Rightarrow>
                        if nth_opt (playerOrder safeGame) (turnIndex safeGame) \<noteq> Some socketId
                           \<and> status safeGame \<noteq> Finished
                        then SCard (hide_card ''hidden_drawn'' d)
                        else SCard d
                    | s \<Rightarrow> s)\<rparr>
         else safeGame)"

section \<open>Events\<close>

text \<open>
  What a room reacts to: the inbound messages and the firing of its timers.
  \<open>PlayerReady d\<close> and \<open>PlayAgain d\<close> carry the outcome \<open>d\<close> of \<^verbatim>\<open>shuffle(createDeck())\<close>
  that the deal uses should the message deal; \<open>Phase1Timeout\<close> is the firing of a
  ten-second timer, \<open>Peek8Expired cid\<close> and \<open>Peek6Expired cid\<close> the firing of a
  five-second timer that holds the card \<open>cid\<close>. A run may fire a timer at any
  moment and for any card, which is more than the server does. Hand indices are
  array indices (natural numbers).
\<close>

datatype event =
    JoinGame string
  | PlayerReady "card list"
  | Phase1Timeout
  | DrawDeck
  | DrawDiscard nat
  | SwapDrawnCard nat
  | DiscardDrawnCard
  | CallStack
  | ExecuteStack string nat "nat option"
  | PlayAbilityTarget string target_data
  | JackRespond nat
  | CallIt
  | PlayAgain "card list"
  | Peek8Expired string
  | Peek6Expired string

fun handle_event :: "game \<Rightarrow> string \<Rightarrow> event \<Rightarrow> error + game" where
  "handle_event g s (JoinGame n) = join_game g s n"
| "handle_event g s (PlayerReady d) = player_ready g s d"
| "handle_event g s Phase1Timeout = phase1_timeout g"
| "handle_event g s DrawDeck = draw_deck g s"
| "handle_event g s (DrawDiscard i) = draw_discard g s i"
| "handle_event g s (SwapDrawnCard i) = swap_drawn_card g s i"
| "handle_event g s DiscardDrawnCard = discard_drawn_card g s"
| "handle_event g s CallStack = call_stack g s"
| "handle_event g s (ExecuteStack t i k) = execute_stack g s t i k"
| "handle_event g s (PlayAbilityTarget ty td) = play_ability_target g s ty td"
| "handle_event g s (JackRespond i) = jack_respond g s i"
| "handle_event g s CallIt = call_it g s"
| "handle_event g s (PlayAgain d) = play_again g d"
| "handle_event g s (Peek8Expired cid) = peek8_expired g cid"
| "handle_event g s (Peek6Expired cid) = peek6_expired g cid"

text \<open>
  A run of the room: the messages are handled one after the other, each to
  completion, from the game the previous one left; an exception ends the run.
\<close>

fun run_events :: "game \<Rightarrow> (string \<times> event) list \<Rightarrow> error + game" where
  "run_events g [] = Inr g"
| "run_events g ((s, e) # es) =
     (case handle_event g s e of Inl x \<Rightarrow> Inl x | Inr g' \<Rightarrow> run_events g' es)"

text \<open>The ids of all cards in play: deck, discard pile, every hand, and the drawn card.\<close>

fun slot_id :: "slot \<Rightarrow> string option" where
  "slot_id (SCard c) = Some (card_id c)"
| "slot_id s = None"

definition hand_of :: "game \<Rightarrow> string \<Rightarrow> slot list" where
  "hand_of g p = (case players g p of None \<Rightarrow> [] | Some pl \<Rightarrow> hand pl)"

definition slot_ids :: "slot list \<Rightarrow> string multiset" where
  "slot_ids h = mset (map card_id (cards_of h))"

definition hands_ids :: "game \<Rightarrow> string multiset" where
  "hands_ids g = (\<Sum>p \<in># mset (playerOrder g). slot_ids (hand_of g p))"

definition card_ids :: "game \<Rightarrow> string multiset" where
  "card_ids g =
     mset (map card_id (deck g)) + mset (map card_id (discardPile g)) + hands_ids g
     + slot_ids [drawnCard g]"

text \<open>
  The players of a game are seated: \<^verbatim>\<open>join_game\<close> adds a socket to \<^verbatim>\<open>players\<close> and to
  \<^verbatim>\<open>playerOrder\<close> together, and only once.
\<close>

definition seated :: "game \<Rightarrow> bool" where
  "seated g = (distinct (playerOrder g) \<and> dom (players g) = set (playerOrder g))"

text \<open>What the loop of \<^verbatim>\<open>promptEndGame\<close> does to one player: reveal the hand, set the score.\<close>

definition reveal_player :: "player \<Rightarrow> player" where
  "reveal_player pl =
     pl\<lparr>hand := map reveal_slot (hand pl), score := calculateScore (map reveal_slot (hand pl))\<rparr>"

text \<open>
  What holds of a game that is still in the lobby: no card is anywhere and nothing
  is in progress.
\<close>

definition lobby_empty :: "game \<Rightarrow> bool" where
  "lobby_empty g =
     (status g = Lobby \<longrightarrow>
        deck g = [] \<and> discardPile g = [] \<and> \<not> is_card (drawnCard g) \<and> activeAbility g = None \<and>
        \<not> active (stackWindow g) \<and> (\<forall>p. cards_of (hand_of g p) = []))"


text \<open>Once the cards are dealt two players sit at the table.\<close>

definition full_table :: "game \<Rightarrow> bool" where
  "full_table g = (status g \<noteq> Lobby \<longrightarrow> length (playerOrder g) = 2)"

section \<open>Example games\<close>

text \<open>One player has joined; then the same after a draw from the (empty) deck.\<close>

definition lobby_joined :: game where
  "lobby_joined = createGameState
     \<lparr>players := [''a'' \<mapsto> \<lparr>pid = ''a'', number = 1, name = ''Ann'',
                     hand = [SNull, SNull, SNull, SNull], score = Some 0, ready = False,
                     isFinalTurn = False\<rparr>],
      playerOrder := [''a'']\<rparr>"

definition lobby_drawn :: game where
  "lobby_drawn = lobby_joined\<lparr>drawnCard := SUndef\<rparr>"

text \<open>
  Games of Ann (socket \<open>''a''\<close>) and Bob (socket \<open>''b''\<close>). \<open>crd\<close> is the card of
  \<open>createDeck\<close> with a rank and a suit; \<open>lower32\<close> are the hearts, the diamonds and the
  clubs up to the 6, in the order of \<open>createDeck\<close>. The decks below are \<open>lower32\<close>
  followed by the other 22 cards in some order: outcomes of the shuffle.
\<close>

definition crd :: "string \<Rightarrow> string \<Rightarrow> card" where
  "crd v s = new_card (v @ ''_'' @ s) s v"

definition joker1 :: card where
  "joker1 = new_card ''Joker_1'' ''none'' ''Joker''"

definition joker2 :: card where
  "joker2 = new_card ''Joker_2'' ''none'' ''Joker''"

definition lower32 :: "card list" where
  "lower32 = take 32 createDeck"

definition known :: "card \<Rightarrow> card" where
  "known c = c\<lparr>knownToPlayer := True\<rparr>"

definition faceUp :: "card \<Rightarrow> card" where
  "faceUp c = c\<lparr>isFaceUp := True\<rparr>"

definition ann :: "slot list \<Rightarrow> player" where
  "ann h = \<lparr>pid = ''a'', number = 1, name = ''Ann'', hand = h, score = Some 0, ready = True,
            isFinalTurn = False\<rparr>"

definition bob :: "slot list \<Rightarrow> player" where
  "bob h = \<lparr>pid = ''b'', number = 2, name = ''Bob'', hand = h, score = Some 0, ready = True,
            isFinalTurn = False\<rparr>"

definition two_players :: "player \<Rightarrow> player \<Rightarrow> (string \<rightharpoonup> player)" where
  "two_players pa pb = [''a'' \<mapsto> pa, ''b'' \<mapsto> pb]"

definition no_window :: stack_window where
  "no_window = \<lparr>active = False, caller = None, targetValue = None\<rparr>"

definition start_events :: "card list \<Rightarrow> (string \<times> event) list" where
  "start_events d =
     [(''a'', JoinGame ''Ann''), (''b'', JoinGame ''Bob''),
      (''a'', PlayerReady d), (''b'', PlayerReady d)]"

text \<open>
  First deal: Ann gets A, 2, 3, 4 of spades, Bob the 7 of clubs and 5, 9, 10 of
  spades; the 7 of spades is on top of the deck, the 9 of clubs under it.
\<close>

definition stockA :: "card list" where
  "stockA = lower32 @
     [crd ''8'' ''clubs'', crd ''10'' ''clubs'', crd ''J'' ''clubs'', crd ''Q'' ''clubs'',
      crd ''K'' ''clubs'', crd ''6'' ''spades'', crd ''8'' ''spades'', crd ''J'' ''spades'',
      crd ''Q'' ''spades'', crd ''K'' ''spades'', joker1, joker2]"

definition deckA :: "card list" where
  "deckA = stockA @
     [crd ''9'' ''clubs'', crd ''7'' ''spades'',
      crd ''10'' ''spades'', crd ''9'' ''spades'', crd ''5'' ''spades'', crd ''7'' ''clubs'',
      crd ''4'' ''spades'', crd ''3'' ''spades'', crd ''2'' ''spades'', crd ''A'' ''spades'']"

definition annA :: "slot list" where
  "annA = [SCard (crd ''A'' ''spades''), SCard (crd ''2'' ''spades''),
           SCard (crd ''3'' ''spades''), SCard (crd ''4'' ''spades'')]"

definition bobA :: "slot list" where
  "bobA = [SCard (crd ''7'' ''clubs''), SCard (crd ''5'' ''spades''),
           SCard (crd ''9'' ''spades''), SCard (crd ''10'' ''spades'')]"

text \<open>After the deal (phase1: the two bottom cards of each hand are known to their owner).\<close>

definition dealtA :: game where
  "dealtA =
     \<lparr>status = Phase1,
      players = two_players
        (ann [SCard (crd ''A'' ''spades''), SCard (crd ''2'' ''spades''),
              SCard (known (crd ''3'' ''spades'')), SCard (known (crd ''4'' ''spades''))])
        (bob [SCard (crd ''7'' ''clubs''), SCard (crd ''5'' ''spades''),
              SCard (known (crd ''9'' ''spades'')), SCard (known (crd ''10'' ''spades''))]),
      playerOrder = [''a'', ''b''], turnIndex = 0,
      deck = stockA @ [crd ''9'' ''clubs'', crd ''7'' ''spades''],
      discardPile = [], drawnCard = SNull, activeAbility = None, stackWindow = no_window,
      endTriggeredBy = None\<rparr>"

text \<open>After the ten seconds: playing, Ann to move.\<close>

definition playingA :: game where
  "playingA = dealtA\<lparr>status := Playing, players := two_players (ann annA) (bob bobA)\<rparr>"

text \<open>Ann has drawn the 7 of spades and discarded it: Bob to move.\<close>

definition discardedA :: game where
  "discardedA = playingA\<lparr>turnIndex := 1, deck := stockA @ [crd ''9'' ''clubs''],
     discardPile := [faceUp (crd ''7'' ''spades'')]\<rparr>"

text \<open>
  Second deal: Ann gets the 8 of clubs and 2, 3, 4 of spades, Bob 5, 9, 10, 7 of
  spades; the 8 of spades is on top of the deck, the 9 of clubs under it.
\<close>

definition stockB :: "card list" where
  "stockB = lower32 @
     [crd ''7'' ''clubs'', crd ''10'' ''clubs'', crd ''J'' ''clubs'', crd ''Q'' ''clubs'',
      crd ''K'' ''clubs'', crd ''6'' ''spades'', crd ''A'' ''spades'', crd ''J'' ''spades'',
      crd ''Q'' ''spades'', crd ''K'' ''spades'', joker1, joker2]"

definition deckB :: "card list" where
  "deckB = stockB @
     [crd ''9'' ''clubs'', crd ''8'' ''spades'',
      crd ''7'' ''spades'', crd ''10'' ''spades'', crd ''9'' ''spades'', crd ''5'' ''spades'',
      crd ''4'' ''spades'', crd ''3'' ''spades'', crd ''2'' ''spades'', crd ''8'' ''clubs'']"

text \<open>
  The game after these messages: the deal of \<open>deckB\<close> and the timer; Ann draws the 8
  of spades, discards it and peeks at Bob's first card; Bob draws the 9 of clubs;
  Ann calls a stack and matches with her 8 of clubs, which gives her a new ability
  while Bob still holds his drawn card.
\<close>

definition eventsB :: "(string \<times> event) list" where
  "eventsB = start_events deckB @
     [(''a'', Phase1Timeout), (''a'', DrawDeck), (''a'', DiscardDrawnCard),
      (''a'', PlayAbilityTarget ''8'' \<lparr>myIndex = 0, opponentId = ''b'', oppIndex = 0\<rparr>),
      (''b'', DrawDeck), (''a'', CallStack), (''a'', ExecuteStack ''a'' 0 None)]"

definition pendingB :: game where
  "pendingB =
     \<lparr>status = Playing,
      players = two_players
        (ann [SNull, SCard (crd ''2'' ''spades''), SCard (crd ''3'' ''spades''),
              SCard (crd ''4'' ''spades'')])
        (bob [SCard ((crd ''5'' ''spades'')\<lparr>knownToOpponent := True\<rparr>), SCard (crd ''9'' ''spades''),
              SCard (crd ''10'' ''spades''), SCard (crd ''7'' ''spades'')]),
      playerOrder = [''a'', ''b''], turnIndex = 1,
      deck = stockB,
      discardPile = [faceUp (crd ''8'' ''spades''), faceUp (crd ''8'' ''clubs'')],
      drawnCard = SCard (crd ''9'' ''clubs''),
      activeAbility = Some \<lparr>ability_type = ''8'', ability_player = ''a'', jackPhase = None\<rparr>,
      stackWindow = no_window, endTriggeredBy = None\<rparr>"

text \<open>Then Bob swaps his drawn card into his second slot.\<close>

definition swappedB :: game where
  "swappedB = pendingB
     \<lparr>players := two_players
        (ann [SNull, SCard (crd ''2'' ''spades''), SCard (crd ''3'' ''spades''),
              SCard (crd ''4'' ''spades'')])
        (bob [SCard ((crd ''5'' ''spades'')\<lparr>knownToOpponent := True\<rparr>), SCard (crd ''9'' ''clubs''),
              SCard (crd ''10'' ''spades''), SCard (crd ''7'' ''spades'')]),
      turnIndex := 0,
      discardPile := [faceUp (crd ''8'' ''spades''), faceUp (crd ''8'' ''clubs''),
                      faceUp (crd ''9'' ''spades'')],
      drawnCard := SNull\<rparr>"


text \<open>Ann and Bob have joined (a third socket that joins the room is not registered).\<close>

definition lobby_two :: game where
  "lobby_two = createGameState
     \<lparr>players := two_players ((ann [SNull, SNull, SNull, SNull])\<lparr>ready := False\<rparr>)
                              ((bob [SNull, SNull, SNull, SNull])\<lparr>ready := False\<rparr>),
      playerOrder := [''a'', ''b'']\<rparr>"

text \<open>After \<open>discardedA\<close>, Bob has called a stack on the 7 of spades.\<close>

definition calledA :: game where
  "calledA = discardedA
     \<lparr>stackWindow := \<lparr>active = True, caller = Some ''b'', targetValue = Some ''7''\<rparr>\<rparr>"

text \<open>
  The same stack call late in a game: the deck is used up, all its cards lie on
  the discard pile under the 7 of spades.
\<close>

definition dryA :: game where
  "dryA = calledA
     \<lparr>deck := [],
      discardPile := map faceUp (stockA @ [crd ''9'' ''clubs'']) @ [faceUp (crd ''7'' ''spades'')]\<rparr>"

text \<open>
  Ann's hand is empty (her four cards lie on the discard pile) and she holds the 7
  of spades she drew; then the game her discarding it leaves.
\<close>

definition attritionA :: game where
  "attritionA = playingA
     \<lparr>players := two_players (ann [SNull, SNull, SNull, SNull]) (bob bobA),
      deck := stockA @ [crd ''9'' ''clubs''],
      discardPile := [faceUp (crd ''A'' ''spades''), faceUp (crd ''2'' ''spades''),
                      faceUp (crd ''3'' ''spades''), faceUp (crd ''4'' ''spades'')],
      drawnCard := SCard (crd ''7'' ''spades'')\<rparr>"

definition finishedA :: game where
  "finishedA = attritionA
     \<lparr>status := Finished,
      players := two_players
        ((ann [SNull, SNull, SNull, SNull])\<lparr>isFinalTurn := True\<rparr>)
        ((bob [SCard (faceUp (crd ''7'' ''clubs'')), SCard (faceUp (crd ''5'' ''spades'')),
               SCard (faceUp (crd ''9'' ''spades'')), SCard (faceUp (crd ''10'' ''spades''))])
           \<lparr>score := Some 31\<rparr>),
      discardPile := [faceUp (crd ''A'' ''spades''), faceUp (crd ''2'' ''spades''),
                      faceUp (crd ''3'' ''spades''), faceUp (crd ''4'' ''spades''),
                      faceUp (crd ''7'' ''spades'')],
      drawnCard := SNull\<rparr>"

text \<open>The same with Ann's \<open>isFinalTurn\<close> already set.\<close>

definition flaggedA :: game where
  "flaggedA = attritionA
     \<lparr>players := two_players ((ann [SNull, SNull, SNull, SNull])\<lparr>isFinalTurn := True\<rparr>) (bob bobA)\<rparr>"



text \<open>
  Third deal: Ann gets A, 2, 3, 4 of spades and Bob 5, 7, 9, 10 of spades; the King
  of spades is on top of the deck, the 9 of clubs under it. During phase1 Ann
  draws the King and discards it: she has the King's ability.
\<close>

definition stockC :: "card list" where
  "stockC = lower32 @
     [crd ''7'' ''clubs'', crd ''8'' ''clubs'', crd ''10'' ''clubs'', crd ''J'' ''clubs'',
      crd ''Q'' ''clubs'', crd ''K'' ''clubs'', crd ''6'' ''spades'', crd ''8'' ''spades'',
      crd ''J'' ''spades'', crd ''Q'' ''spades'', joker1, joker2]"

definition deckC :: "card list" where
  "deckC = stockC @
     [crd ''9'' ''clubs'', crd ''K'' ''spades'',
      crd ''10'' ''spades'', crd ''9'' ''spades'', crd ''7'' ''spades'', crd ''5'' ''spades'',
      crd ''4'' ''spades'', crd ''3'' ''spades'', crd ''2'' ''spades'', crd ''A'' ''spades'']"

definition kingC :: game where
  "kingC =
     \<lparr>status = Phase1,
      players = two_players
        (ann [SCard (crd ''A'' ''spades''), SCard (crd ''2'' ''spades''),
              SCard (known (crd ''3'' ''spades'')), SCard (known (crd ''4'' ''spades''))])
        (bob [SCard (crd ''5'' ''spades''), SCard (crd ''7'' ''spades''),
              SCard (known (crd ''9'' ''spades'')), SCard (known (crd ''10'' ''spades''))]),
      playerOrder = [''a'', ''b''], turnIndex = 0,
      deck = stockC @ [crd ''9'' ''clubs''],
      discardPile = [faceUp (crd ''K'' ''spades'')], drawnCard = SNull,
      activeAbility = Some \<lparr>ability_type = ''K'', ability_player = ''a'', jackPhase = None\<rparr>,
      stackWindow = no_window, endTriggeredBy = None\<rparr>"

text \<open>
  Ann swaps her third card (which she knows) with Bob's first; then the timer
  fires and play begins.
\<close>

definition swappedC :: game where
  "swappedC = kingC
     \<lparr>status := Playing,
      players := two_players
        (ann [SCard (crd ''A'' ''spades''), SCard (crd ''2'' ''spades''),
              SCard (crd ''5'' ''spades''), SCard (crd ''4'' ''spades'')])
        (bob [SCard (known (crd ''3'' ''spades'')), SCard (crd ''7'' ''spades''),
              SCard (crd ''9'' ''spades''), SCard (crd ''10'' ''spades'')]),
      turnIndex := 1, activeAbility := None\<rparr>"

text \<open>Between the two: the game right after the swap, still in phase1.\<close>

definition midC :: game where
  "midC = kingC
     \<lparr>players := two_players
        (ann [SCard (crd ''A'' ''spades''), SCard (crd ''2'' ''spades''),
              SCard (crd ''5'' ''spades''), SCard (known (crd ''4'' ''spades''))])
        (bob [SCard (known (crd ''3'' ''spades'')), SCard (crd ''7'' ''spades''),
              SCard (known (crd ''9'' ''spades'')), SCard (known (crd ''10'' ''spades''))]),
      turnIndex := 1, activeAbility := None\<rparr>"

definition eventsC :: "(string \<times> event) list" where
  "eventsC = start_events deckC @
     [(''a'', DrawDeck), (''a'', DiscardDrawnCard),
      (''a'', PlayAbilityTarget ''K'' \<lparr>myIndex = 2, opponentId = ''b'', oppIndex = 0\<rparr>),
      (''a'', Phase1Timeout)]"

text \<open>
  After \<open>discardedA\<close>: Bob draws the 9 of clubs and calls a stack on the 7 of spades;
  then the game his matching 7 of clubs leaves.
\<close>

definition eventsA :: "(string \<times> event) list" where
  "eventsA = start_events deckA @
     [(''a'', Phase1Timeout), (''a'', DrawDeck), (''a'', DiscardDrawnCard),
      (''b'', DrawDeck), (''b'', CallStack)]"

definition stackedA :: game where
  "stackedA = discardedA
     \<lparr>deck := stockA, drawnCard := SCard (crd ''9'' ''clubs''),
      stackWindow := \<lparr>active = True, caller = Some ''b'', targetValue = Some ''7''\<rparr>\<rparr>"

definition lostA :: game where
  "lostA = stackedA
     \<lparr>players := two_players (ann annA)
        (bob [SNull, SCard (crd ''5'' ''spades''), SCard (crd ''9'' ''spades''),
              SCard (crd ''10'' ''spades'')]),
      turnIndex := 0,
      discardPile := [faceUp (crd ''7'' ''spades''), faceUp (crd ''7'' ''clubs'')],
      drawnCard := SNull, stackWindow := no_window\<rparr>"













section \<open>What the engine functions leave alone\<close>

lemma butlast_neq: "xs \<noteq> [] \<Longrightarrow> butlast xs \<noteq> xs"
proof
  assume "xs \<noteq> []" and "butlast xs = xs"
  then have "length xs - 1 = length xs" by (metis length_butlast)
  with \<open>xs \<noteq> []\<close> show False by (cases xs) auto
qed

lemma set_hand_slot_fields [simp]:
  "status (set_hand_slot g p i v) = status g"
  "playerOrder (set_hand_slot g p i v) = playerOrder g"
  "turnIndex (set_hand_slot g p i v) = turnIndex g"
  "deck (set_hand_slot g p i v) = deck g"
  "discardPile (set_hand_slot g p i v) = discardPile g"
  "drawnCard (set_hand_slot g p i v) = drawnCard g"
  "activeAbility (set_hand_slot g p i v) = activeAbility g"
  "stackWindow (set_hand_slot g p i v) = stackWindow g"
  "endTriggeredBy (set_hand_slot g p i v) = endTriggeredBy g"
  by (simp_all add: set_hand_slot_def split: option.splits)

lemma hand_of_simps [simp]:
  "players g p = Some pl \<Longrightarrow> hand_of g p = hand pl"
  "players g p = None \<Longrightarrow> hand_of g p = []"
  by (simp_all add: hand_of_def)

lemma promptEndGame_frame:
  "promptEndGame g = Inr g' \<Longrightarrow>
     status g' = Finished \<and> deck g' = deck g \<and> discardPile g' = discardPile g \<and>
     drawnCard g' = drawnCard g \<and> activeAbility g' = activeAbility g \<and>
     stackWindow g' = stackWindow g \<and> playerOrder g' = playerOrder g \<and>
     turnIndex g' = turnIndex g \<and> endTriggeredBy g' = endTriggeredBy g"
  by (auto simp: promptEndGame_def split: sum.splits)

lemma advanceTurn_frame:
  "advanceTurn g = Inr g' \<Longrightarrow>
     deck g' = deck g \<and> discardPile g' = discardPile g \<and>
     drawnCard g' = SNull \<and> activeAbility g' = activeAbility g \<and>
     stackWindow g' = stackWindow g \<and> playerOrder g' = playerOrder g"
  by (auto simp: advanceTurn_def Let_def split: option.splits if_splits dest!: promptEndGame_frame)


lemma two_players_simps [simp]:
  "two_players pa pb ''a'' = Some pa" "two_players pa pb ''b'' = Some pb"
  "k \<noteq> ''a'' \<Longrightarrow> k \<noteq> ''b'' \<Longrightarrow> two_players pa pb k = None"
  "(two_players pa pb)(''a'' \<mapsto> x) = two_players x pb"
  "(two_players pa pb)(''b'' \<mapsto> x) = two_players pa x"
  by (auto simp: two_players_def)

lemma two_players_fold:
  "[''a'' \<mapsto> pa, ''b'' \<mapsto> pb] = two_players pa pb"
  "[''b'' \<mapsto> pb, ''a'' \<mapsto> pa] = two_players pa pb"
  by (auto simp: two_players_def)

lemma checkEndGameAndAdvance_drawn:
  "checkEndGameAndAdvance g = Inr g' \<Longrightarrow> drawnCard g' = drawnCard g \<or> drawnCard g' = SNull"
  by (auto simp: checkEndGameAndAdvance_def split: option.splits sum.splits if_splits
       dest!: promptEndGame_frame advanceTurn_frame)

lemma handleDiscard_drawn:
  "handleDiscard g old sid = Inr g' \<Longrightarrow> drawnCard g' = drawnCard g \<or> drawnCard g' = SNull"
  by (cases old)
     (auto simp: handleDiscard_def Let_def split: if_splits dest!: checkEndGameAndAdvance_drawn)

lemma is_card_cases: "is_card s \<Longrightarrow> \<exists>c. s = SCard c"
  by (cases s) auto

lemma reveal_slot_idem [simp]: "reveal_slot (reveal_slot s) = reveal_slot s"
  by (cases s) simp_all

lemma reveal_player_idem [simp]: "reveal_player (reveal_player pl) = reveal_player pl"
  by (simp add: reveal_player_def comp_def)

lemma score_players_total:
  "list_all (\<lambda>p. ps p \<noteq> None) po \<Longrightarrow>
   score_players po ps = Inr (\<lambda>p. if p \<in> set po then map_option reveal_player (ps p) else ps p)"
proof (induction po arbitrary: ps)
  case Nil
  then show ?case by simp
next
  case (Cons q po)
  then obtain pl where pl: "ps q = Some pl" by auto
  let ?ps = "ps(q \<mapsto> reveal_player pl)"
  have "list_all (\<lambda>p. ?ps p \<noteq> None) po"
    using Cons.prems by (auto simp: list_all_iff)
  from Cons.IH [OF this]
  have "score_players po ?ps = Inr (\<lambda>p. if p \<in> set po then map_option reveal_player (?ps p) else ?ps p)" .
  moreover have "(\<lambda>p. if p \<in> set po then map_option reveal_player (?ps p) else ?ps p)
      = (\<lambda>p. if p \<in> set (q # po) then map_option reveal_player (ps p) else ps p)"
    using pl by (auto simp: fun_eq_iff)
  ultimately show ?case
    using pl by (simp add: reveal_player_def)
qed








lemma score_players_hands:
  "score_players po ps = Inr ps' \<Longrightarrow>
     (case ps p of None \<Rightarrow> ps' p = None
      | Some pl \<Rightarrow> ps' p = Some pl \<or> ps' p = Some (reveal_player pl))"
proof (induction po arbitrary: ps)
  case Nil
  then show ?case by (auto split: option.splits)
next
  case (Cons q po)
  from Cons.prems obtain ql where ql: "ps q = Some ql"
    and r: "score_players po (ps(q \<mapsto> reveal_player ql)) = Inr ps'"
    by (auto simp: reveal_player_def split: option.splits)
  from Cons.IH [OF r] show ?case
    using ql by (cases "p = q") (auto split: option.splits)
qed

lemma promptEndGame_hands:
  "promptEndGame g = Inr g' \<Longrightarrow>
     hand_of g' p = hand_of g p \<or> hand_of g' p = map reveal_slot (hand_of g p)"
proof -
  assume "promptEndGame g = Inr g'"
  then obtain ps' where s: "score_players (playerOrder g) (players g) = Inr ps'"
    and g': "players g' = ps'"
    by (auto simp: promptEndGame_def split: sum.splits)
  from score_players_hands [OF s, of p] g' show ?thesis
    by (auto simp: hand_of_def reveal_player_def split: option.splits)
qed

lemma advanceTurn_hands:
  "advanceTurn g = Inr g' \<Longrightarrow>
     hand_of g' p = hand_of g p \<or> hand_of g' p = map reveal_slot (hand_of g p)"
  by (auto simp: advanceTurn_def Let_def hand_of_def split: option.splits if_splits
        dest!: promptEndGame_hands [where p = p])

lemma checkEndGameAndAdvance_hands:
  "checkEndGameAndAdvance g = Inr g' \<Longrightarrow>
     hand_of g' p = hand_of g p \<or> hand_of g' p = map reveal_slot (hand_of g p)"
  by (auto simp: checkEndGameAndAdvance_def hand_of_def split: option.splits sum.splits if_splits
        dest!: promptEndGame_hands [where p = p] advanceTurn_hands [where p = p])

lemma swap_slots_hands:
  assumes "players g p1 = Some pl1" and "players g p2 = Some pl2" and "p2 \<noteq> p1"
      and "i < length (hand pl1)" and "j < length (hand pl2)"
  shows "hand_of (swap_slots g p1 i p2 j) p1 = (hand pl1)[i := js_get (hand pl2) j]"
    and "hand_of (swap_slots g p1 i p2 j) p2 = (hand pl2)[j := js_get (hand pl1) i]"
  using assms
  by (simp_all add: swap_slots_def Let_def set_hand_slot_def get_hand_slot_def js_set_def hand_of_def)

lemma redact_hand_nth:
  "i < length h \<Longrightarrow> redact_hand st own h ! i = redact_slot st own i (h ! i)"
  by (simp add: redact_hand_def nth_enumerate_eq)

lemma redact_hand_length [simp]: "length (redact_hand st own h) = length h"
  by (simp add: redact_hand_def)

lemma sanitize_hand_slot:
  assumes "status g \<noteq> Lobby" and "players g p = Some pl" and "i < length (hand pl)"
  shows "get_hand_slot (sanitizeGameState g v) p i =
           (case redact_slot (status g) (p = v) i (json_slot (hand pl ! i)) of
              SHole \<Rightarrow> SUndef | s \<Rightarrow> s)"
proof -
  have "status g = Playing \<or> status g = Phase1 \<or> status g = Finished"
    using assms(1) by (cases "status g") auto
  then show ?thesis
    using assms(2,3)
    by (simp add: sanitizeGameState_def get_hand_slot_def js_get_def redact_hand_nth Let_def)
qed

lemma pop_card_append [simp]:
  "ys \<noteq> [] \<Longrightarrow> pop_card (xs @ ys) = (SCard (last ys), xs @ butlast ys)"
  by (simp add: pop_card_def butlast_append)

section \<open>The example games are games the handlers reach\<close>

lemma deckA_permutation: "mset deckA = mset createDeck"
proof -
  have "mset (drop 32 createDeck) = mset (drop 32 deckA)"
    by (simp add: deckA_def stockA_def lower32_def createDeck_def SUITS_def VALUES_def crd_def
          joker1_def joker2_def)
  moreover have "take 32 deckA = take 32 createDeck"
    by (simp add: deckA_def stockA_def lower32_def createDeck_def SUITS_def VALUES_def)
  ultimately show ?thesis
    by (metis append_take_drop_id mset_append)
qed

lemma reach_dealtA: "run_events createGameState (start_events deckA @ es) = run_events dealtA es"
  by (simp add: start_events_def createGameState_def join_game_def player_ready_def
       dealInitial_def deckA_def dealtA_def ann_def bob_def known_def
       no_window_def numeral_2_eq_2 two_players_fold)

lemma reach_playingA: "run_events dealtA ((''a'', Phase1Timeout) # es) = run_events playingA es"
  by (simp add: phase1_timeout_def dealtA_def playingA_def ann_def bob_def annA_def bobA_def
       known_def js_get_def js_set_def crd_def new_card_def)

lemma reach_discardedA:
  "run_events playingA ((''a'', DrawDeck) # (''a'', DiscardDrawnCard) # es) = run_events discardedA es"
  by (simp add: playingA_def dealtA_def discardedA_def draw_deck_def nth_opt_def
       discard_drawn_card_def handleDiscard_def is_ability_def crd_def new_card_def
       checkEndGameAndAdvance_def ann_def bob_def annA_def bobA_def advanceTurn_def faceUp_def
       butlast_append)

lemma reach_calledA: "run_events discardedA ((''b'', CallStack) # es) = run_events calledA es"
  by (simp add: call_stack_def calledA_def discardedA_def playingA_def dealtA_def no_window_def
        faceUp_def crd_def new_card_def)

lemma reach_lobby_two:
  "run_events createGameState
     ((''a'', JoinGame ''Ann'') # (''b'', JoinGame ''Bob'') # (''c'', JoinGame ''Cat'') # es)
   = run_events lobby_two es"
  by (simp add: createGameState_def join_game_def lobby_two_def ann_def bob_def numeral_2_eq_2
        two_players_fold)

lemma reach_pendingB: "run_events createGameState (eventsB @ es) = run_events pendingB es"
  by (simp add: eventsB_def start_events_def createGameState_def join_game_def player_ready_def
       dealInitial_def deckB_def pendingB_def ann_def bob_def known_def faceUp_def no_window_def
       crd_def new_card_def numeral_2_eq_2 phase1_timeout_def js_get_def js_set_def
       draw_deck_def nth_opt_def discard_drawn_card_def handleDiscard_def is_ability_def
       checkEndGameAndAdvance_def advanceTurn_def butlast_append play_ability_target_def
       ability_done_def set_hand_slot_def call_stack_def execute_stack_def stack_match_def
       stack_finish_def stackerCards_def Let_def two_players_fold)

lemma swap_pendingB: "swap_drawn_card pendingB ''b'' 1 = Inr swappedB"
  by (simp add: pendingB_def swappedB_def swap_drawn_card_def nth_opt_def ann_def bob_def
       js_get_def js_set_def set_hand_slot_def handleDiscard_def is_ability_def crd_def
       new_card_def faceUp_def checkEndGameAndAdvance_def advanceTurn_def Let_def)


lemma deckB_permutation: "mset deckB = mset createDeck"
proof -
  have "mset (drop 32 createDeck) = mset (drop 32 deckB)"
    by (simp add: deckB_def stockB_def lower32_def createDeck_def SUITS_def VALUES_def crd_def
          joker1_def joker2_def)
  moreover have "take 32 deckB = take 32 createDeck"
    by (simp add: deckB_def stockB_def lower32_def createDeck_def SUITS_def VALUES_def)
  ultimately show ?thesis
    by (metis append_take_drop_id mset_append)
qed

lemma deckC_permutation: "mset deckC = mset createDeck"
proof -
  have "mset (drop 32 createDeck) = mset (drop 32 deckC)"
    by (simp add: deckC_def stockC_def lower32_def createDeck_def SUITS_def VALUES_def crd_def
          joker1_def joker2_def)
  moreover have "take 32 deckC = take 32 createDeck"
    by (simp add: deckC_def stockC_def lower32_def createDeck_def SUITS_def VALUES_def)
  ultimately show ?thesis
    by (metis append_take_drop_id mset_append)
qed

lemma reach_kingC:
  "run_events createGameState
     (start_events deckC @ (''a'', DrawDeck) # (''a'', DiscardDrawnCard) # es) = run_events kingC es"
  by (simp add: start_events_def createGameState_def join_game_def player_ready_def
       dealInitial_def deckC_def kingC_def ann_def bob_def known_def faceUp_def no_window_def
       crd_def new_card_def numeral_2_eq_2 draw_deck_def nth_opt_def discard_drawn_card_def
       handleDiscard_def is_ability_def butlast_append two_players_fold)

lemma swap_kingC:
  "play_ability_target kingC ''a'' ''K'' \<lparr>myIndex = 2, opponentId = ''b'', oppIndex = 0\<rparr> = Inr midC"
  by (simp add: play_ability_target_def kingC_def midC_def ann_def bob_def swap_slots_def
       get_hand_slot_def set_hand_slot_def js_get_def js_set_def Let_def ability_done_def
       checkEndGameAndAdvance_def advanceTurn_def nth_opt_def known_def crd_def new_card_def)

lemma timeout_midC: "phase1_timeout midC = Inr swappedC"
  by (simp add: phase1_timeout_def midC_def swappedC_def kingC_def ann_def bob_def js_get_def
       js_set_def known_def crd_def new_card_def)

lemma reach_swappedC: "run_events createGameState eventsC = Inr swappedC"
  unfolding eventsC_def reach_kingC by (simp add: swap_kingC timeout_midC)


section \<open>Counting the cards\<close>

lemma cards_of_append [simp]: "cards_of (xs @ ys) = cards_of xs @ cards_of ys"
  by (induction xs rule: cards_of.induct) simp_all

lemma cards_of_replicate_hole [simp]: "cards_of (replicate n SHole) = []"
  by (induction n) simp_all

lemma slot_ids_simps [simp]:
  "slot_ids [] = {#}" "slot_ids (SCard c # h) = add_mset (card_id c) (slot_ids h)"
  "slot_ids (SNull # h) = slot_ids h" "slot_ids (SUndef # h) = slot_ids h"
  "slot_ids (SHole # h) = slot_ids h"
  "slot_ids (xs @ ys) = slot_ids xs + slot_ids ys"
  by (simp_all add: slot_ids_def)

lemma slot_ids_replicate_hole [simp]: "slot_ids (replicate n SHole) = {#}"
  by (simp add: slot_ids_def)

lemma slot_ids_update:
  "i < length h \<Longrightarrow> slot_ids (h[i := v]) + slot_ids [h ! i] = slot_ids h + slot_ids [v]"
proof -
  assume "i < length h"
  then have "h = take i h @ [h ! i] @ drop (Suc i) h"
    by (simp add: id_take_nth_drop)
  moreover from \<open>i < length h\<close> have "h[i := v] = take i h @ [v] @ drop (Suc i) h"
    by (simp add: upd_conv_take_nth_drop)
  ultimately have "slot_ids h = slot_ids (take i h) + slot_ids [h ! i] + slot_ids (drop (Suc i) h)"
    and "slot_ids (h[i := v]) = slot_ids (take i h) + slot_ids [v] + slot_ids (drop (Suc i) h)"
    by (metis slot_ids_simps(6) add.assoc)+
  then show ?thesis by simp
qed

lemma slot_ids_js_get: "slot_ids [js_get h i] = (if i < length h then slot_ids [h ! i] else {#})"
  by (cases "h ! i") (simp_all add: js_get_def)

lemma slot_ids_js_set:
  "slot_ids (js_set h i v) + slot_ids [js_get h i] = slot_ids h + slot_ids [v]"
proof (cases "i < length h")
  case True
  then show ?thesis
    using slot_ids_update [of i h v] by (simp add: slot_ids_js_get js_set_def)
next
  case False
  then show ?thesis
    by (simp add: slot_ids_js_get js_set_def)
qed

lemma slot_ids_reveal [simp]: "slot_ids (map reveal_slot h) = slot_ids h"
  by (induction h rule: cards_of.induct) simp_all

lemma hands_ids_cong:
  assumes "playerOrder g' = playerOrder g"
      and "\<And>p. p \<in> set (playerOrder g) \<Longrightarrow> slot_ids (hand_of g' p) = slot_ids (hand_of g p)"
  shows "hands_ids g' = hands_ids g"
  using assms by (auto simp: hands_ids_def intro!: arg_cong [where f = sum_mset] image_mset_cong)

lemma sum_mset_update_distinct:
  assumes "distinct po" and "p \<in> set po" and "\<And>q. q \<noteq> p \<Longrightarrow> f' q = f q"
  shows "(\<Sum>q \<in># mset po. f' q) + f p = (\<Sum>q \<in># mset po. f q) + (f' p :: 'b multiset)"
  using assms
proof (induction po)
  case Nil
  then show ?case by simp
next
  case (Cons a po)
  show ?case
  proof (cases "a = p")
    case True
    with Cons.prems(1) have "p \<notin> set po" by simp
    then have "\<And>q. q \<in> set po \<Longrightarrow> f' q = f q"
      using Cons.prems(3) by metis
    then have "(\<Sum>q \<in># mset po. f' q) = (\<Sum>q \<in># mset po. f q)"
      by (auto intro!: arg_cong [where f = sum_mset] image_mset_cong)
    with True show ?thesis by (simp add: ac_simps)
  next
    case False
    with Cons.prems have "p \<in> set po" "distinct po" by auto
    from Cons.IH [OF this(2,1) Cons.prems(3)] False Cons.prems(3) [of a]
    show ?thesis by (simp add: ac_simps)
  qed
qed

lemma hands_ids_set_hand:
  assumes "seated g" and "players g p = Some pl"
  shows "hands_ids (g\<lparr>players := (players g)(p \<mapsto> pl\<lparr>hand := h'\<rparr>)\<rparr>) + slot_ids (hand pl)
         = hands_ids g + slot_ids h'"
proof -
  from assms have d: "distinct (playerOrder g)" and m: "p \<in> set (playerOrder g)"
    by (auto simp: seated_def)
  let ?g' = "g\<lparr>players := (players g)(p \<mapsto> pl\<lparr>hand := h'\<rparr>)\<rparr>"
  have "(\<Sum>q \<in># mset (playerOrder g). slot_ids (hand_of ?g' q)) + slot_ids (hand_of g p)
      = (\<Sum>q \<in># mset (playerOrder g). slot_ids (hand_of g q)) + slot_ids (hand_of ?g' p)"
    by (rule sum_mset_update_distinct [OF d m]) (simp add: hand_of_def)
  then show ?thesis
    using assms(2) by (simp add: hands_ids_def hand_of_def)
qed

lemma hands_ids_set_hand_slot:
  assumes "seated g" and "players g p \<noteq> None"
  shows "hands_ids (set_hand_slot g p i v) + slot_ids [get_hand_slot g p i]
         = hands_ids g + slot_ids [v]"
proof -
  from assms(2) obtain pl where pl: "players g p = Some pl" by auto
  have "hands_ids (set_hand_slot g p i v) + slot_ids (hand pl)
         = hands_ids g + slot_ids (js_set (hand pl) i v)"
    using hands_ids_set_hand [OF assms(1) pl] pl by (simp add: set_hand_slot_def)
  then have "hands_ids (set_hand_slot g p i v) + slot_ids (hand pl) + slot_ids [js_get (hand pl) i]
         = hands_ids g + (slot_ids (hand pl) + slot_ids [v])"
    using slot_ids_js_set [of "hand pl" i v] by (simp add: ac_simps)
  then show ?thesis
    using pl by (simp add: get_hand_slot_def)
qed

lemma seated_set_hand_slot [simp]: "seated (set_hand_slot g p i v) = seated g"
  by (auto simp: seated_def set_hand_slot_def split: option.splits)


lemma card_ids_set_hand_slot:
  assumes "seated g" and "players g p \<noteq> None"
  shows "card_ids (set_hand_slot g p i v) + slot_ids [get_hand_slot g p i]
         = card_ids g + slot_ids [v]"
proof -
  let ?r = "mset (map card_id (deck g)) + mset (map card_id (discardPile g)) + slot_ids [drawnCard g]"
  have "card_ids (set_hand_slot g p i v) + slot_ids [get_hand_slot g p i]
      = ?r + (hands_ids (set_hand_slot g p i v) + slot_ids [get_hand_slot g p i])"
    by (simp add: card_ids_def)
  also have "\<dots> = ?r + (hands_ids g + slot_ids [v])"
    by (simp only: hands_ids_set_hand_slot [OF assms])
  also have "\<dots> = card_ids g + slot_ids [v]"
    by (simp add: card_ids_def)
  finally show ?thesis .
qed

lemma card_ids_same_hands:
  assumes "playerOrder g' = playerOrder g" and "deck g' = deck g"
      and "discardPile g' = discardPile g" and "drawnCard g' = drawnCard g"
      and "\<And>p. slot_ids (hand_of g' p) = slot_ids (hand_of g p)"
  shows "card_ids g' = card_ids g"
proof -
  have "hands_ids g' = hands_ids g"
    by (rule hands_ids_cong) (simp_all add: assms)
  then show ?thesis
    by (simp add: card_ids_def assms(2-4))
qed


lemma promptEndGame_card_ids: "promptEndGame g = Inr g' \<Longrightarrow> card_ids g' = card_ids g"
proof -
  assume a: "promptEndGame g = Inr g'"
  note f = promptEndGame_frame [OF a]
  show ?thesis
  proof (rule card_ids_same_hands)
    fix p
    from promptEndGame_hands [OF a, of p]
    show "slot_ids (hand_of g' p) = slot_ids (hand_of g p)" by auto
  qed (simp_all add: f)
qed

lemma advanceTurn_card_ids:
  "advanceTurn g = Inr g' \<Longrightarrow> card_ids g' + slot_ids [drawnCard g] = card_ids g"
proof -
  assume a: "advanceTurn g = Inr g'"
  let ?g1 = "g\<lparr>turnIndex := (turnIndex g + 1) mod length (playerOrder g), drawnCard := SNull\<rparr>"
  have 1: "card_ids ?g1 + slot_ids [drawnCard g] = card_ids g"
    by (simp add: card_ids_def hands_ids_def hand_of_def)
  from a have "g' = ?g1 \<or> promptEndGame ?g1 = Inr g'"
    by (simp add: advanceTurn_def Let_def split: option.splits if_splits)
  then have "card_ids g' = card_ids ?g1"
    using promptEndGame_card_ids [of ?g1 g'] by blast
  with 1 show ?thesis by simp
qed


lemma checkEndGameAndAdvance_cases:
  assumes "checkEndGameAndAdvance g = Inr g'"
  shows "advanceTurn g = Inr g' \<or>
         (\<exists>cur pl. players g cur = Some pl \<and>
            promptEndGame (g\<lparr>players := (players g)(cur \<mapsto> pl\<lparr>isFinalTurn := True\<rparr>)\<rparr>) = Inr g')"
proof (cases "nth_opt (playerOrder g) (turnIndex g)")
  case None
  with assms show ?thesis by (simp add: checkEndGameAndAdvance_def)
next
  case (Some cur)
  show ?thesis
  proof (cases "players g cur")
    case None
    with assms Some show ?thesis by (simp add: checkEndGameAndAdvance_def)
  next
    case pl: (Some pl)
    show ?thesis
    proof (cases "allFaceUp (hand pl)")
      case (Inl e)
      with assms Some pl show ?thesis by (simp add: checkEndGameAndAdvance_def)
    next
      case (Inr afu)
      with assms Some pl show ?thesis
        by (cases "afu \<and> \<not> isFinalTurn pl") (auto simp: checkEndGameAndAdvance_def)
    qed
  qed
qed

lemma not_card_ids [simp]: "\<not> is_card s \<Longrightarrow> slot_ids [s] = {#}"
  by (cases s) simp_all

lemma seated_fields [simp]:
  "seated (g\<lparr>deck := d\<rparr>) = seated g" "seated (g\<lparr>discardPile := dp\<rparr>) = seated g"
  "seated (g\<lparr>drawnCard := s\<rparr>) = seated g" "seated (g\<lparr>activeAbility := a\<rparr>) = seated g"
  "seated (g\<lparr>stackWindow := w\<rparr>) = seated g" "seated (g\<lparr>status := st\<rparr>) = seated g"
  "seated (g\<lparr>turnIndex := t\<rparr>) = seated g" "seated (g\<lparr>endTriggeredBy := e\<rparr>) = seated g"
  by (simp_all add: seated_def)

lemma card_ids_fields [simp]:
  "card_ids (g\<lparr>activeAbility := a\<rparr>) = card_ids g"
  "card_ids (g\<lparr>stackWindow := w\<rparr>) = card_ids g"
  "card_ids (g\<lparr>status := st\<rparr>) = card_ids g"
  "card_ids (g\<lparr>turnIndex := t\<rparr>) = card_ids g"
  "card_ids (g\<lparr>endTriggeredBy := e\<rparr>) = card_ids g"
  by (simp_all add: card_ids_def hands_ids_def hand_of_def)

lemma card_ids_discard_push:
  "card_ids (g\<lparr>discardPile := discardPile g @ [c]\<rparr>) = add_mset (card_id c) (card_ids g)"
  by (simp add: card_ids_def hands_ids_def hand_of_def)

lemma image_mset_butlast:
  "xs \<noteq> [] \<Longrightarrow> add_mset (f (last xs)) (image_mset f (mset (butlast xs))) = image_mset f (mset xs)"
  by (cases xs rule: rev_cases) simp_all

lemma card_ids_deck_pop:
  "deck g \<noteq> [] \<Longrightarrow>
   add_mset (card_id (last (deck g))) (card_ids (g\<lparr>deck := butlast (deck g)\<rparr>)) = card_ids g"
  by (simp add: card_ids_def hands_ids_def hand_of_def image_mset_butlast)

lemma js_get_js_set_same [simp]: "js_get (js_set h i v) i = (if v = SHole then SUndef else v)"
  by (cases v) (simp_all add: js_get_def js_set_def nth_append)

lemma slot_ids_js_get_js_set:
  "i \<noteq> j \<Longrightarrow> slot_ids [js_get (js_set h i v) j] = slot_ids [js_get h j]"
  by (auto simp: js_get_def js_set_def nth_append nth_Cons' split: slot.splits)

lemma slot_ids_undef_hole [simp]: "slot_ids [if v = SHole then SUndef else v] = slot_ids [v]"
  by (cases v) simp_all

lemma slot_ids_get_set:
  "slot_ids [get_hand_slot (set_hand_slot g p i v) q j]
     = (if p = q \<and> i = j \<and> players g p \<noteq> None then slot_ids [v]
        else slot_ids [get_hand_slot g q j])"
  by (auto simp: get_hand_slot_def set_hand_slot_def slot_ids_js_get_js_set split: option.splits)

lemma players_set_hand_slot [simp]:
  "(players (set_hand_slot g p i v) q = None) = (players g q = None)"
  by (simp add: set_hand_slot_def split: option.splits)

lemma card_ids_take_slot:
  assumes "seated g" and "players g p \<noteq> None" and "get_hand_slot g p i = SCard c"
  shows "add_mset (card_id c) (card_ids (set_hand_slot g p i SNull)) = card_ids g"
  using card_ids_set_hand_slot [OF assms(1,2), of i SNull] assms(3) by simp

lemma card_ids_put_slot:
  assumes "seated g" and "players g p \<noteq> None" and "slot_ids [get_hand_slot g p i] = {#}"
  shows "card_ids (set_hand_slot g p i (SCard c)) = add_mset (card_id c) (card_ids g)"
  using card_ids_set_hand_slot [OF assms(1,2), of i "SCard c"] assms(3) by simp

lemma card_ids_discard_push_eq:
  "discardPile g = dp \<Longrightarrow>
   card_ids (g\<lparr>discardPile := dp @ [c]\<rparr>) = add_mset (card_id c) (card_ids g)"
  using card_ids_discard_push [of g c] by simp

lemma ability_choice:
  "\<exists>a. (if C then h\<lparr>activeAbility := None\<rparr>\<lparr>activeAbility := b\<rparr> else h\<lparr>activeAbility := None\<rparr>)
         = h\<lparr>activeAbility := a\<rparr>"
  by (cases C) auto

text \<open>What a matching stack does to the table, up to the ability it may start.\<close>

lemma stack_match_shape:
  fixes g tid i c sid
  defines "g2 \<equiv> (set_hand_slot g tid i SNull)\<lparr>discardPile := discardPile g @ [c\<lparr>isFaceUp := True\<rparr>]\<rparr>"
  shows "\<exists>h a. stack_match g sid tid i give c = h\<lparr>activeAbility := a\<rparr> \<and>
           (h = g2 \<or>
            (\<exists>k d. tid \<noteq> sid \<and> get_hand_slot g2 sid k = SCard d \<and>
               h = set_hand_slot (set_hand_slot g2 sid k SNull) tid i
                     (SCard (d\<lparr>isFaceUp := False, knownToPlayer := False\<rparr>))))"
proof -
  let ?g3 = "if tid \<noteq> sid
             then (case give of None \<Rightarrow> g2
                   | Some k \<Rightarrow>
                       (case get_hand_slot g2 sid k of
                          SCard d \<Rightarrow> set_hand_slot (set_hand_slot g2 sid k SNull) tid i
                             (SCard (d\<lparr>isFaceUp := False, knownToPlayer := False\<rparr>))
                        | _ \<Rightarrow> g2))
             else g2"
  have "\<exists>a. stack_match g sid tid i give c = ?g3\<lparr>activeAbility := a\<rparr>"
    unfolding stack_match_def Let_def g2_def set_hand_slot_fields by (rule ability_choice)
  moreover have "?g3 = g2 \<or>
            (\<exists>k d. tid \<noteq> sid \<and> get_hand_slot g2 sid k = SCard d \<and>
               ?g3 = set_hand_slot (set_hand_slot g2 sid k SNull) tid i
                     (SCard (d\<lparr>isFaceUp := False, knownToPlayer := False\<rparr>)))"
  proof (cases "tid \<noteq> sid")
    case False then show ?thesis by simp
  next
    case ne: True
    show ?thesis
    proof (cases give)
      case None with ne show ?thesis by simp
    next
      case (Some k)
      show ?thesis
      proof (cases "get_hand_slot g2 sid k")
        case (SCard d)
        have "?g3 = set_hand_slot (set_hand_slot g2 sid k SNull) tid i
                     (SCard (d\<lparr>isFaceUp := False, knownToPlayer := False\<rparr>))"
          by (simp only: ne Some SCard if_True option.case slot.case simp_thms)
        with ne SCard show ?thesis by blast
      qed (simp_all only: ne Some if_True option.case slot.case simp_thms)
    qed
  qed
  ultimately show ?thesis by blast
qed

lemma stack_match_card_ids:
  assumes s: "seated g" and t: "players g tid \<noteq> None" and c: "get_hand_slot g tid i = SCard c"
  shows "card_ids (stack_match g sid tid i give c) = card_ids g"
proof -
  let ?g1 = "set_hand_slot g tid i SNull"
  let ?g2 = "?g1\<lparr>discardPile := discardPile g @ [c\<lparr>isFaceUp := True\<rparr>]\<rparr>"
  have 1: "add_mset (card_id c) (card_ids ?g1) = card_ids g"
    by (rule card_ids_take_slot [OF s t c])
  have 2: "card_ids ?g2 = card_ids g"
    using 1 by (simp add: card_ids_discard_push_eq)
  have s2: "seated ?g2" using s by simp
  have give: "card_ids (set_hand_slot (set_hand_slot ?g2 sid k SNull) tid i
                 (SCard (d\<lparr>isFaceUp := False, knownToPlayer := False\<rparr>))) = card_ids ?g2"
    if d: "get_hand_slot ?g2 sid k = SCard d" and ne: "tid \<noteq> sid" for k d
  proof -
    let ?ga = "set_hand_slot ?g2 sid k SNull"
    have p: "players ?g2 sid \<noteq> None"
      using d unfolding get_hand_slot_def
      by (cases "players ?g2 sid") (simp_all del: players_set_hand_slot)
    have a: "add_mset (card_id d) (card_ids ?ga) = card_ids ?g2"
      by (rule card_ids_take_slot [OF s2 p d])
    have "slot_ids [get_hand_slot ?ga tid i] = slot_ids [get_hand_slot ?g2 tid i]"
      using ne by (simp add: slot_ids_get_set)
    also have "get_hand_slot ?g2 tid i = get_hand_slot ?g1 tid i"
      by (simp add: get_hand_slot_def)
    also have "slot_ids [get_hand_slot ?g1 tid i] = {#}"
      using t by (simp add: slot_ids_get_set)
    finally have e: "slot_ids [get_hand_slot ?ga tid i] = {#}" .
    have "card_ids (set_hand_slot ?ga tid i (SCard (d\<lparr>isFaceUp := False, knownToPlayer := False\<rparr>)))
        = add_mset (card_id (d\<lparr>isFaceUp := False, knownToPlayer := False\<rparr>)) (card_ids ?ga)"
      by (rule card_ids_put_slot) (use s t e in simp_all)
    with a show ?thesis by simp
  qed
  from stack_match_shape [of g sid tid i give c]
  obtain h a where m: "stack_match g sid tid i give c = h\<lparr>activeAbility := a\<rparr>"
    and h: "h = ?g2 \<or> (\<exists>k d. tid \<noteq> sid \<and> get_hand_slot ?g2 sid k = SCard d \<and>
               h = set_hand_slot (set_hand_slot ?g2 sid k SNull) tid i
                     (SCard (d\<lparr>isFaceUp := False, knownToPlayer := False\<rparr>)))"
    by blast
  from h have "card_ids h = card_ids ?g2"
    using give by blast
  with m 2 show ?thesis by simp
qed

lemma seated_stack_match [simp]: "seated (stack_match g sid tid i give c) = seated g"
proof -
  from stack_match_shape [of g sid tid i give c]
  obtain h a where m: "stack_match g sid tid i give c = h\<lparr>activeAbility := a\<rparr>"
    and h: "seated h = seated g"
    by fastforce
  then show ?thesis by simp
qed

lemma stack_match_drawn [simp]: "drawnCard (stack_match g sid tid i give c) = drawnCard g"
proof -
  from stack_match_shape [of g sid tid i give c]
  obtain h a where m: "stack_match g sid tid i give c = h\<lparr>activeAbility := a\<rparr>"
    and h: "drawnCard h = drawnCard g"
    by fastforce
  then show ?thesis by simp
qed

lemma stack_mismatch_card_ids:
  assumes "seated g"
  shows "card_ids (stack_mismatch g sid) = card_ids g"
proof (cases "deck g \<noteq> [] \<and> players g sid \<noteq> None")
  case False
  then show ?thesis by (auto simp: stack_mismatch_def)
next
  case True
  then obtain cp where cp: "players g sid = Some cp" by auto
  let ?c = "(last (deck g))\<lparr>isFaceUp := False, knownToPlayer := False\<rparr>"
  let ?g1 = "g\<lparr>deck := butlast (deck g)\<rparr>"
  let ?g2 = "?g1\<lparr>players := (players ?g1)(sid \<mapsto> cp\<lparr>hand := hand cp @ [SCard ?c]\<rparr>)\<rparr>"
  have e: "stack_mismatch g sid = ?g2"
    using True cp by (simp add: stack_mismatch_def)
  have "hands_ids ?g2 + slot_ids (hand cp) = hands_ids ?g1 + slot_ids (hand cp @ [SCard ?c])"
    by (rule hands_ids_set_hand) (simp_all add: assms cp)
  then have h: "hands_ids ?g2 = add_mset (card_id (last (deck g))) (hands_ids g)"
    by (simp add: hands_ids_def hand_of_def)
  have "card_ids ?g2 = add_mset (card_id (last (deck g))) (card_ids ?g1)"
    unfolding card_ids_def h by (simp add: hands_ids_def hand_of_def)
  with card_ids_deck_pop [of g] True show ?thesis
    unfolding e by simp
qed

lemma stack_finish_cases:
  assumes "stack_finish m g = Inr g'"
  defines "g1 \<equiv> g\<lparr>stackWindow := \<lparr>active = False, caller = None, targetValue = None\<rparr>\<rparr>"
  shows "g' = g1 \<or> promptEndGame (g1\<lparr>activeAbility := None\<rparr>) = Inr g'
         \<or> checkEndGameAndAdvance g1 = Inr g'"
proof (cases m)
  case False
  with assms(1) show ?thesis by (simp add: stack_finish_def g1_def)
next
  case True
  show ?thesis
  proof (cases "anyEmpty (playerOrder g) (players g)")
    case (Inl e)
    with True assms(1) show ?thesis by (simp add: stack_finish_def)
  next
    case (Inr b)
    with True assms(1) show ?thesis
      by (cases b; cases "activeAbility g = None") (simp_all add: stack_finish_def g1_def)
  qed
qed

lemma stack_mismatch_drawn [simp]: "drawnCard (stack_mismatch g sid) = drawnCard g"
  by (simp add: stack_mismatch_def split: option.split)

lemma execute_stack_cases:
  assumes "execute_stack g sid tid i give = Inr g'"
  shows "g' = g
       \<or> (\<exists>c. players g tid \<noteq> None \<and> get_hand_slot g tid i = SCard c \<and>
              stack_finish True (stack_match g sid tid i give c) = Inr g')
       \<or> stack_finish False (stack_mismatch g sid) = Inr g'"
proof (cases "active (stackWindow g) \<and> caller (stackWindow g) = Some sid")
  case False
  with assms show ?thesis by (auto simp: execute_stack_def)
next
  case True
  with assms obtain tp where tp: "players g tid = Some tp"
    by (cases "players g tid") (simp_all add: execute_stack_def)
  with True assms obtain cp where cp: "players g sid = Some cp"
    by (cases "players g sid") (simp_all add: execute_stack_def)
  show ?thesis
  proof (cases "js_get (hand tp) i")
    case (SCard c)
    then have "get_hand_slot g tid i = SCard c" using tp by (simp add: get_hand_slot_def)
    with assms True tp cp SCard show ?thesis
      by (cases "targetValue (stackWindow g) = Some (cvalue c)") (simp_all add: execute_stack_def)
  qed (use assms True tp cp in \<open>simp_all add: execute_stack_def\<close>)
qed

lemma swap_slots_drawn [simp]: "drawnCard (swap_slots g p1 i p2 j) = drawnCard g"
  by (simp add: swap_slots_def Let_def)

lemma seated_swap_slots [simp]: "seated (swap_slots g p1 i p2 j) = seated g"
  by (simp add: swap_slots_def Let_def)

lemma dom_set_hand_slot [simp]: "dom (players (set_hand_slot g p i v)) = dom (players g)"
  by (auto simp: set_hand_slot_def split: option.splits)

lemma score_players_dom: "score_players po ps = Inr ps' \<Longrightarrow> dom ps' = dom ps"
proof (induction po arbitrary: ps)
  case Nil
  then show ?case by simp
next
  case (Cons q po)
  from Cons.prems obtain ql where ql: "ps q = Some ql"
    by (cases "ps q") simp_all
  let ?ps = "ps(q \<mapsto> ql\<lparr>hand := map reveal_slot (hand ql),
                         score := calculateScore (map reveal_slot (hand ql))\<rparr>)"
  from Cons.prems ql have "score_players po ?ps = Inr ps'" by simp
  then have "dom ps' = dom ?ps" by (rule Cons.IH)
  also have "dom ?ps = dom ps" using ql by (simp add: insert_absorb domI)
  finally show ?case .
qed

lemma promptEndGame_seats:
  "promptEndGame g = Inr g' \<Longrightarrow> playerOrder g' = playerOrder g \<and> dom (players g') = dom (players g)"
proof -
  assume a: "promptEndGame g = Inr g'"
  then obtain ps where ps: "score_players (playerOrder g) (players g) = Inr ps"
    by (cases "score_players (playerOrder g) (players g)") (simp_all add: promptEndGame_def)
  with a have "g' = g\<lparr>status := Finished, players := ps\<rparr>"
    by (simp add: promptEndGame_def)
  with score_players_dom [OF ps] show ?thesis by simp
qed

lemma advanceTurn_seats:
  assumes "advanceTurn g = Inr g'"
  shows "playerOrder g' = playerOrder g \<and> dom (players g') = dom (players g)"
proof -
  let ?g1 = "g\<lparr>turnIndex := (turnIndex g + 1) mod length (playerOrder g), drawnCard := SNull\<rparr>"
  from assms have "g' = ?g1 \<or> promptEndGame ?g1 = Inr g'"
    by (simp add: advanceTurn_def Let_def split: option.splits if_splits)
  then show ?thesis
  proof
    assume "g' = ?g1" then show ?thesis by simp
  next
    assume "promptEndGame ?g1 = Inr g'"
    from promptEndGame_seats [OF this] show ?thesis by simp
  qed
qed

lemma checkEndGameAndAdvance_seats:
  assumes "checkEndGameAndAdvance g = Inr g'"
  shows "playerOrder g' = playerOrder g \<and> dom (players g') = dom (players g)"
  using checkEndGameAndAdvance_cases [OF assms]
proof (elim disjE exE conjE)
  assume "advanceTurn g = Inr g'"
  then show ?thesis by (rule advanceTurn_seats)
next
  fix cur pl
  assume p: "players g cur = Some pl"
    and e: "promptEndGame (g\<lparr>players := (players g)(cur \<mapsto> pl\<lparr>isFinalTurn := True\<rparr>)\<rparr>) = Inr g'"
  from promptEndGame_seats [OF e] p show ?thesis by (simp add: insert_absorb domI)
qed

lemma handleDiscard_seats:
  assumes "handleDiscard g old sid = Inr g'"
  shows "playerOrder g' = playerOrder g \<and> dom (players g') = dom (players g)"
proof (cases old)
  case (SCard c)
  let ?g1 = "g\<lparr>discardPile := discardPile g @ [c\<lparr>isFaceUp := True\<rparr>]\<rparr>"
  show ?thesis
  proof (cases "is_ability (cvalue c)")
    case True
    with assms SCard show ?thesis by (simp add: handleDiscard_def) (erule subst, simp)
  next
    case False
    with assms SCard have "checkEndGameAndAdvance ?g1 = Inr g'"
      by (simp add: handleDiscard_def)
    from checkEndGameAndAdvance_seats [OF this] show ?thesis by simp
  qed
qed (use assms in \<open>simp_all add: handleDiscard_def checkEndGameAndAdvance_seats\<close>)

lemma stack_finish_seats:
  assumes "stack_finish m g = Inr g'"
  shows "playerOrder g' = playerOrder g \<and> dom (players g') = dom (players g)"
  using stack_finish_cases [OF assms]
proof (elim disjE)
  assume "g' = g\<lparr>stackWindow := \<lparr>active = False, caller = None, targetValue = None\<rparr>\<rparr>"
  then show ?thesis by simp
next
  assume "promptEndGame (g\<lparr>stackWindow := \<lparr>active = False, caller = None, targetValue = None\<rparr>,
                           activeAbility := None\<rparr>) = Inr g'"
  from promptEndGame_seats [OF this] show ?thesis by simp
next
  assume "checkEndGameAndAdvance
            (g\<lparr>stackWindow := \<lparr>active = False, caller = None, targetValue = None\<rparr>\<rparr>) = Inr g'"
  from checkEndGameAndAdvance_seats [OF this] show ?thesis by simp
qed

lemma ability_done_seats:
  "ability_done g = Inr g' \<Longrightarrow> playerOrder g' = playerOrder g \<and> dom (players g') = dom (players g)"
  using checkEndGameAndAdvance_seats [of "g\<lparr>activeAbility := None\<rparr>" g']
  by (simp add: ability_done_def)

lemma draw_deck_seats:
  "draw_deck g sid = Inr g' \<Longrightarrow> playerOrder g' = playerOrder g \<and> dom (players g') = dom (players g)"
  by (auto simp: draw_deck_def split: if_splits)

lemma draw_discard_seats:
  assumes "draw_discard g sid i = Inr g'"
  shows "playerOrder g' = playerOrder g \<and> dom (players g') = dom (players g)"
proof (cases "nth_opt (playerOrder g) (turnIndex g) = Some sid \<and> \<not> is_card (drawnCard g)
              \<and> activeAbility g = None \<and> discardPile g \<noteq> []")
  case False
  with assms have "g' = g" by (auto simp: draw_discard_def split: if_splits)
  then show ?thesis by simp
next
  case True
  with assms obtain pl where pl: "players g sid = Some pl"
    by (cases "players g sid") (simp_all add: draw_discard_def)
  let ?g2 = "set_hand_slot (g\<lparr>discardPile := butlast (discardPile g)\<rparr>) sid i
               (SCard ((last (discardPile g))\<lparr>isFaceUp := False, knownToPlayer := False\<rparr>))"
  have "handleDiscard ?g2 (js_get (hand pl) i) sid = Inr g'"
    using assms True pl by (simp add: draw_discard_def Let_def)
  from handleDiscard_seats [OF this] show ?thesis by simp
qed

lemma swap_drawn_card_seats:
  assumes "swap_drawn_card g sid i = Inr g'"
  shows "playerOrder g' = playerOrder g \<and> dom (players g') = dom (players g)"
proof (cases "nth_opt (playerOrder g) (turnIndex g) = Some sid \<and> is_card (drawnCard g)")
  case False
  with assms have "g' = g"
    by (cases "drawnCard g") (auto simp: swap_drawn_card_def split: if_splits)
  then show ?thesis by simp
next
  case True
  then obtain d where d: "drawnCard g = SCard d" by (auto dest: is_card_cases)
  with True assms obtain pl where pl: "players g sid = Some pl"
    by (cases "players g sid") (simp_all add: swap_drawn_card_def)
  let ?g2 = "(set_hand_slot g sid i (SCard (d\<lparr>isFaceUp := False, knownToPlayer := False\<rparr>)))
               \<lparr>drawnCard := SNull\<rparr>"
  have "handleDiscard ?g2 (js_get (hand pl) i) sid = Inr g'"
    using assms True pl d by (simp add: swap_drawn_card_def Let_def)
  from handleDiscard_seats [OF this] show ?thesis by simp
qed

lemma discard_drawn_card_seats:
  assumes "discard_drawn_card g sid = Inr g'"
  shows "playerOrder g' = playerOrder g \<and> dom (players g') = dom (players g)"
proof (cases "nth_opt (playerOrder g) (turnIndex g) = Some sid \<and> is_card (drawnCard g)")
  case False
  with assms have "g' = g"
    by (cases "drawnCard g") (auto simp: discard_drawn_card_def split: if_splits)
  then show ?thesis by simp
next
  case True
  then obtain d where d: "drawnCard g = SCard d" by (auto dest: is_card_cases)
  have "handleDiscard (g\<lparr>drawnCard := SNull\<rparr>) (SCard d) sid = Inr g'"
    using assms True d by (simp add: discard_drawn_card_def)
  from handleDiscard_seats [OF this] show ?thesis by simp
qed

lemma call_stack_seats:
  "call_stack g sid = Inr g' \<Longrightarrow> playerOrder g' = playerOrder g \<and> dom (players g') = dom (players g)"
  by (auto simp: call_stack_def split: if_splits)

lemma call_it_seats:
  assumes "call_it g sid = Inr g'"
  shows "playerOrder g' = playerOrder g \<and> dom (players g') = dom (players g)"
proof (cases "nth_opt (playerOrder g) (turnIndex g) = Some sid \<and> \<not> is_card (drawnCard g)
              \<and> activeAbility g = None \<and> \<not> active (stackWindow g) \<and> status g = Playing")
  case False
  with assms have "g' = g" by (auto simp: call_it_def split: if_splits)
  then show ?thesis by simp
next
  case True
  with assms have "advanceTurn (g\<lparr>endTriggeredBy := Some sid\<rparr>) = Inr g'"
    by (simp add: call_it_def)
  from advanceTurn_seats [OF this] show ?thesis by simp
qed

lemma stack_match_seats:
  "playerOrder (stack_match g sid tid i give c) = playerOrder g \<and>
   dom (players (stack_match g sid tid i give c)) = dom (players g)"
proof -
  from stack_match_shape [of g sid tid i give c]
  obtain h a where m: "stack_match g sid tid i give c = h\<lparr>activeAbility := a\<rparr>"
    and h: "playerOrder h = playerOrder g \<and> dom (players h) = dom (players g)"
    by fastforce
  then show ?thesis by simp
qed

lemma stack_mismatch_seats:
  "playerOrder (stack_mismatch g sid) = playerOrder g \<and>
   dom (players (stack_mismatch g sid)) = dom (players g)"
  by (simp add: stack_mismatch_def insert_absorb domI split: option.split)

lemma execute_stack_seats:
  assumes "execute_stack g sid tid i give = Inr g'"
  shows "playerOrder g' = playerOrder g \<and> dom (players g') = dom (players g)"
  using execute_stack_cases [OF assms]
proof (elim disjE exE conjE)
  assume "g' = g" then show ?thesis by simp
next
  fix c assume "stack_finish True (stack_match g sid tid i give c) = Inr g'"
  from stack_finish_seats [OF this] show ?thesis by (simp add: stack_match_seats)
next
  assume "stack_finish False (stack_mismatch g sid) = Inr g'"
  from stack_finish_seats [OF this] show ?thesis by (simp add: stack_mismatch_seats)
qed

lemma swap_slots_seats:
  "playerOrder (swap_slots g p1 i p2 j) = playerOrder g \<and>
   dom (players (swap_slots g p1 i p2 j)) = dom (players g)"
  by (simp add: swap_slots_def Let_def)

lemma jack_respond_seats:
  assumes e: "jack_respond g sid i = Inr g'"
  shows "playerOrder g' = playerOrder g \<and> dom (players g') = dom (players g)"
proof (cases "\<exists>ab j. activeAbility g = Some ab \<and> ability_type ab = ''J'' \<and> jackPhase ab = Some j
                \<and> sid \<noteq> ability_player ab")
  case False
  with e have "g' = g"
    by (auto simp: jack_respond_def split: option.splits if_splits)
  then show ?thesis by simp
next
  case True
  then obtain ab j where ab: "activeAbility g = Some ab" "ability_type ab = ''J''"
      "jackPhase ab = Some j" "sid \<noteq> ability_player ab"
    by blast
  with e obtain jp where jp: "players g (ability_player ab) = Some jp"
    by (cases "players g (ability_player ab)") (simp_all add: jack_respond_def)
  with e ab obtain op where op: "players g sid = Some op"
    by (cases "players g sid") (simp_all add: jack_respond_def)
  have d: "ability_done (swap_slots g (ability_player ab) j sid i) = Inr g'"
    using e ab jp op by (simp add: jack_respond_def)
  from ability_done_seats [OF d] show ?thesis by (simp add: swap_slots_seats)
qed

lemma play_ability_target_seats:
  assumes e: "play_ability_target g sid ty td = Inr g'"
  shows "playerOrder g' = playerOrder g \<and> dom (players g') = dom (players g)"
proof (cases "activeAbility g")
  case None
  with e show ?thesis by (simp add: play_ability_target_def)
next
  case (Some ab)
  show ?thesis
  proof (cases "ability_player ab = sid \<and> ability_type ab = ty")
    case False
    with e Some have "g' = g" by (auto simp: play_ability_target_def)
    then show ?thesis by simp
  next
    case True
    consider (K) "ty = ''K''" | (J) "ty = ''J''" | (E) "ty = ''8''" | (S) "ty = ''6''"
      | (other) "ty \<noteq> ''K''" "ty \<noteq> ''J''" "ty \<noteq> ''8''" "ty \<noteq> ''6''"
      by blast
    then show ?thesis
    proof cases
      case K
      with e Some True obtain p1 where p1: "players g sid = Some p1"
        by (cases "players g sid") (simp_all add: play_ability_target_def)
      with e Some True K obtain p2 where p2: "players g (opponentId td) = Some p2"
        by (cases "players g (opponentId td)") (simp_all add: play_ability_target_def)
      have d: "ability_done (swap_slots g sid (myIndex td) (opponentId td) (oppIndex td)) = Inr g'"
        using e Some True K p1 p2 by (simp add: play_ability_target_def)
      from ability_done_seats [OF d] show ?thesis by (simp add: swap_slots_seats)
    next
      case J
      with e Some True have "g' = g\<lparr>activeAbility := Some (ab\<lparr>jackPhase := Some (myIndex td)\<rparr>)\<rparr>"
        by (auto simp: play_ability_target_def)
      then show ?thesis by simp
    next
      case E
      with e Some True obtain opp where opp: "players g (opponentId td) = Some opp"
        by (cases "players g (opponentId td)") (simp_all add: play_ability_target_def)
      with e Some True E obtain c where c: "js_get (hand opp) (oppIndex td) = SCard c"
        by (cases "js_get (hand opp) (oppIndex td)") (simp_all add: play_ability_target_def)
      have d: "ability_done (set_hand_slot g (opponentId td) (oppIndex td)
                 (SCard (c\<lparr>knownToOpponent := True\<rparr>))) = Inr g'"
        using e Some True E opp c by (simp add: play_ability_target_def)
      from ability_done_seats [OF d] show ?thesis by simp
    next
      case S
      with e Some True obtain p1 where p1: "players g sid = Some p1"
        by (cases "players g sid") (simp_all add: play_ability_target_def)
      with e Some True S obtain c where c: "js_get (hand p1) (myIndex td) = SCard c"
        by (cases "js_get (hand p1) (myIndex td)") (simp_all add: play_ability_target_def)
      have d: "ability_done (set_hand_slot g sid (myIndex td) (SCard (c\<lparr>knownToPlayer := True\<rparr>)))
                 = Inr g'"
        using e Some True S p1 c by (simp add: play_ability_target_def)
      from ability_done_seats [OF d] show ?thesis by simp
    next
      case other
      with e Some True have "ability_done g = Inr g'"
        by (simp add: play_ability_target_def)
      from ability_done_seats [OF this] show ?thesis .
    qed
  qed
qed

lemma join_game_seated:
  assumes "seated g" and "join_game g sid n = Inr g'"
  shows "seated g'"
proof (cases "length (playerOrder g) < 2 \<and> players g sid = None")
  case False
  with assms show ?thesis by (auto simp: join_game_def)
next
  case True
  with assms(1) have "sid \<notin> set (playerOrder g)"
    by (auto simp: seated_def)
  moreover from assms(2) True
  have "g' = g\<lparr>players := (players g)(sid \<mapsto>
                     \<lparr>pid = sid, number = length (playerOrder g) + 1, name = n,
                      hand = [SNull, SNull, SNull, SNull], score = Some 0, ready = False,
                      isFinalTurn = False\<rparr>),
                   playerOrder := playerOrder g @ [sid]\<rparr>"
    by (simp add: join_game_def)
  ultimately show ?thesis
    using assms(1) by (simp add: seated_def)
qed

lemma forget_players_hands:
  "forget_players po ps = Inr ps' \<Longrightarrow>
     dom ps' = dom ps \<and>
     (\<forall>p. slot_ids (case ps' p of None \<Rightarrow> [] | Some pl \<Rightarrow> hand pl)
        = slot_ids (case ps p of None \<Rightarrow> [] | Some pl \<Rightarrow> hand pl))"
proof (induction po arbitrary: ps)
  case Nil
  then show ?case by simp
next
  case (Cons q po)
  from Cons.prems obtain ql where ql: "ps q = Some ql"
    by (cases "ps q") simp_all
  define h2 where "h2 = (case js_get (hand ql) 2 of
                       SCard c \<Rightarrow> js_set (hand ql) 2 (SCard (c\<lparr>knownToPlayer := False\<rparr>))
                     | _ \<Rightarrow> hand ql)"
  define h3 where "h3 = (case js_get h2 3 of
                       SCard c \<Rightarrow> js_set h2 3 (SCard (c\<lparr>knownToPlayer := False\<rparr>))
                     | _ \<Rightarrow> h2)"
  have forget: "slot_ids (case js_get h i of
                       SCard c \<Rightarrow> js_set h i (SCard (c\<lparr>knownToPlayer := False\<rparr>))
                     | _ \<Rightarrow> h) = slot_ids h" for h i
  proof (cases "js_get h i")
    case (SCard c)
    with slot_ids_js_set [of h i "SCard (c\<lparr>knownToPlayer := False\<rparr>)"] show ?thesis by simp
  qed simp_all
  have h: "slot_ids h3 = slot_ids (hand ql)"
    unfolding h3_def h2_def by (simp only: forget)
  let ?ps = "ps(q \<mapsto> ql\<lparr>hand := h3\<rparr>)"
  have "forget_players po ?ps = Inr ps'"
    using Cons.prems ql unfolding h3_def h2_def by (simp add: Let_def)
  note ih = Cons.IH [OF this]
  from ih have d: "dom ps' = dom ?ps"
    by (rule conjunct1)
  from ih have s: "slot_ids (case ps' p of None \<Rightarrow> [] | Some pl \<Rightarrow> hand pl)
        = slot_ids (case ?ps p of None \<Rightarrow> [] | Some pl \<Rightarrow> hand pl)" for p
    by (rule conjunct2 [THEN spec])
  have "dom ps' = dom ps"
    using d ql by (simp add: insert_absorb domI)
  moreover have "slot_ids (case ps' p of None \<Rightarrow> [] | Some pl \<Rightarrow> hand pl)
        = slot_ids (case ps p of None \<Rightarrow> [] | Some pl \<Rightarrow> hand pl)" for p
    unfolding s [of p] using ql h by (cases "p = q") simp_all
  ultimately show ?case by simp
qed

lemma phase1_timeout_seats:
  assumes "phase1_timeout g = Inr g'"
  shows "playerOrder g' = playerOrder g \<and> dom (players g') = dom (players g)"
proof (cases "status g = Phase1")
  case False
  with assms show ?thesis by (auto simp: phase1_timeout_def)
next
  case True
  with assms obtain ps where ps: "forget_players (playerOrder g) (players g) = Inr ps"
    by (cases "forget_players (playerOrder g) (players g)") (simp_all add: phase1_timeout_def)
  with assms True have "g' = g\<lparr>status := Playing, players := ps\<rparr>"
    by (simp add: phase1_timeout_def)
  with forget_players_hands [OF ps] show ?thesis by simp
qed

lemma deal_players_dom: "deal_players po ps d = Inr (ps', d') \<Longrightarrow> dom ps' = dom ps"
proof (induction po arbitrary: ps d)
  case Nil
  then show ?case by simp
next
  case (Cons q po)
  from Cons.prems obtain ql where ql: "ps q = Some ql"
    by (cases "ps q") simp_all
  with Cons.prems obtain h d3 where "deal_players po (ps(q \<mapsto> ql\<lparr>hand := h\<rparr>)) d3 = Inr (ps', d')"
    by (auto simp: Let_def split: prod.splits slot.splits)
  then have "dom ps' = dom (ps(q \<mapsto> ql\<lparr>hand := h\<rparr>))" by (rule Cons.IH)
  also have "\<dots> = dom ps" using ql by (simp add: insert_absorb domI)
  finally show ?case .
qed

lemma player_ready_cases:
  assumes "player_ready g sid d = Inr g'"
  obtains pl where "players g sid = Some pl"
    and "g' = g\<lparr>players := (players g)(sid \<mapsto> pl\<lparr>ready := True\<rparr>)\<rparr>
         \<or> (status g = Lobby \<and>
            (\<exists>g2. dealInitial (g\<lparr>players := (players g)(sid \<mapsto> pl\<lparr>ready := True\<rparr>)\<rparr>) d = Inr g2
               \<and> g' = g2\<lparr>status := Phase1\<rparr>))"
proof -
  from assms obtain pl where pl: "players g sid = Some pl"
    by (cases "players g sid") (simp_all add: player_ready_def)
  let ?g1 = "g\<lparr>players := (players g)(sid \<mapsto> pl\<lparr>ready := True\<rparr>)\<rparr>"
  let ?r = "if length (playerOrder ?g1) = 2 then all_ready (playerOrder ?g1) (players ?g1)
            else Inr False"
  from assms pl obtain b where b: "?r = Inr b"
    by (cases ?r) (simp_all add: player_ready_def Let_def)
  show thesis
  proof (cases "b \<and> status g = Lobby")
    case False
    with assms pl b have "g' = ?g1"
      by (auto simp: player_ready_def Let_def split: if_splits)
    with pl show thesis by (rule that [OF _ disjI1])
  next
    case True
    with assms pl b obtain g2 where "dealInitial ?g1 d = Inr g2" and "g' = g2\<lparr>status := Phase1\<rparr>"
      by (cases "dealInitial ?g1 d") (auto simp: player_ready_def Let_def)
    with True pl show thesis by (intro that [OF _ disjI2]) auto
  qed
qed

lemma dealInitial_seats:
  assumes "dealInitial g d = Inr g'"
  shows "playerOrder g' = playerOrder g \<and> dom (players g') = dom (players g)"
proof -
  from assms obtain ps d' where r: "deal_players (playerOrder g) (players g) d = Inr (ps, d')"
    by (cases "deal_players (playerOrder g) (players g) d") (auto simp: dealInitial_def)
  with assms have "g' = g\<lparr>players := ps, deck := d'\<rparr>"
    by (simp add: dealInitial_def)
  with deal_players_dom [OF r] show ?thesis by simp
qed

lemma player_ready_seats:
  assumes "player_ready g sid d = Inr g'"
  shows "playerOrder g' = playerOrder g \<and> dom (players g') = dom (players g)"
proof -
  from assms obtain pl where pl: "players g sid = Some pl"
    and c: "g' = g\<lparr>players := (players g)(sid \<mapsto> pl\<lparr>ready := True\<rparr>)\<rparr>
         \<or> (status g = Lobby \<and>
            (\<exists>g2. dealInitial (g\<lparr>players := (players g)(sid \<mapsto> pl\<lparr>ready := True\<rparr>)\<rparr>) d = Inr g2
               \<and> g' = g2\<lparr>status := Phase1\<rparr>))"
    by (rule player_ready_cases)
  from c show ?thesis
  proof (elim disjE conjE exE)
    assume "g' = g\<lparr>players := (players g)(sid \<mapsto> pl\<lparr>ready := True\<rparr>)\<rparr>"
    with pl show ?thesis by (simp add: insert_absorb domI)
  next
    fix g2
    assume "dealInitial (g\<lparr>players := (players g)(sid \<mapsto> pl\<lparr>ready := True\<rparr>)\<rparr>) d = Inr g2"
      and "g' = g2\<lparr>status := Phase1\<rparr>"
    with dealInitial_seats [of "g\<lparr>players := (players g)(sid \<mapsto> pl\<lparr>ready := True\<rparr>)\<rparr>" d g2] pl
    show ?thesis by (simp add: insert_absorb domI)
  qed
qed

text \<open>
  The run \<open>eventsA\<close> ends in \<open>stackedA\<close>: Bob holds the 9 of clubs he drew and has called
  a stack; his matching 7 of clubs then leaves \<open>lostA\<close>.
\<close>

lemma reach_stackedA: "run_events createGameState (eventsA @ es) = run_events stackedA es"
proof -
  have "run_events discardedA ((''b'', DrawDeck) # (''b'', CallStack) # es) = run_events stackedA es"
    by (simp add: draw_deck_def call_stack_def stackedA_def discardedA_def playingA_def dealtA_def
          nth_opt_def no_window_def faceUp_def crd_def new_card_def)
  then show ?thesis
    unfolding eventsA_def by (simp add: reach_dealtA reach_playingA reach_discardedA del: run_events.simps)
qed

lemma stack_stackedA: "execute_stack stackedA ''b'' ''b'' 0 None = Inr lostA"
  by (simp add: execute_stack_def stackedA_def lostA_def discardedA_def playingA_def dealtA_def
        ann_def bob_def annA_def bobA_def js_get_def js_set_def stack_match_def set_hand_slot_def
        is_ability_def stack_finish_def checkEndGameAndAdvance_def advanceTurn_def nth_opt_def
        crd_def new_card_def faceUp_def no_window_def Let_def)

lemma length_lower32: "length lower32 = 32"
  by (simp add: lower32_def createDeck_def SUITS_def VALUES_def)

lemma ids_lower32: "count (image_mset card_id (mset lower32)) ''9_clubs'' = 0"
  by (simp add: count_eq_zero_iff lower32_def createDeck_def SUITS_def VALUES_def new_card_def)

lemma card_ids_stackedA: "size (card_ids stackedA) = 54 \<and> count (card_ids stackedA) ''9_clubs'' = 1"
  by (simp add: ids_lower32 card_ids_def hands_ids_def stackedA_def discardedA_def playingA_def
        dealtA_def hand_of_def ann_def bob_def annA_def bobA_def stockA_def length_lower32 crd_def
        new_card_def joker1_def joker2_def faceUp_def)

lemma card_ids_lostA: "size (card_ids lostA) = 53 \<and> count (card_ids lostA) ''9_clubs'' = 0"
  by (simp add: ids_lower32 card_ids_def hands_ids_def lostA_def stackedA_def discardedA_def
        playingA_def dealtA_def hand_of_def ann_def bob_def annA_def bobA_def stockA_def
        length_lower32 crd_def new_card_def joker1_def joker2_def faceUp_def)


section \<open>The deal, a new round and the timers\<close>

lemma pop_card_empty [simp]: "pop_card [] = (SUndef, [])"
  by (simp add: pop_card_def)

lemma reset_players_dom: "reset_players po ps = Inr ps' \<Longrightarrow> dom ps' = dom ps"
proof (induction po arbitrary: ps)
  case Nil
  then show ?case by simp
next
  case (Cons q po)
  from Cons.prems obtain ql where ql: "ps q = Some ql"
    by (cases "ps q") simp_all
  let ?ps = "ps(q \<mapsto> ql\<lparr>hand := [SNull, SNull, SNull, SNull], score := Some 0,
                         isFinalTurn := False\<rparr>)"
  from Cons.prems ql have "reset_players po ?ps = Inr ps'" by simp
  then have "dom ps' = dom ?ps" by (rule Cons.IH)
  also have "dom ?ps = dom ps" using ql by (simp add: insert_absorb domI)
  finally show ?case .
qed

lemma play_again_cases:
  assumes "play_again g d = Inr g'"
  shows "status g \<noteq> Finished \<and> g' = g
       \<or> (\<exists>ps. status g = Finished \<and> reset_players (playerOrder g) (players g) = Inr ps \<and>
            dealInitial
              (g\<lparr>status := Phase1, turnIndex := 0, deck := [], discardPile := [],
                 drawnCard := SNull, activeAbility := None,
                 stackWindow := \<lparr>active = False, caller = None, targetValue = None\<rparr>,
                 endTriggeredBy := None, players := ps\<rparr>) d = Inr g')"
proof (cases "status g = Finished")
  case False
  with assms show ?thesis by (simp add: play_again_def)
next
  case True
  with assms obtain ps where "reset_players (playerOrder g) (players g) = Inr ps"
    by (cases "reset_players (playerOrder g) (players g)") (simp_all add: play_again_def Let_def)
  with assms True show ?thesis by (simp add: play_again_def Let_def)
qed

lemma dealInitial_frame:
  "dealInitial g d = Inr g' \<Longrightarrow>
     status g' = status g \<and> discardPile g' = discardPile g \<and> drawnCard g' = drawnCard g \<and>
     activeAbility g' = activeAbility g \<and> stackWindow g' = stackWindow g \<and>
     turnIndex g' = turnIndex g \<and> endTriggeredBy g' = endTriggeredBy g"
  by (auto simp: dealInitial_def split: sum.splits)

lemma play_again_seats:
  assumes "play_again g d = Inr g'"
  shows "playerOrder g' = playerOrder g \<and> dom (players g') = dom (players g)"
  using play_again_cases [OF assms]
proof (elim disjE exE conjE)
  assume "g' = g" then show ?thesis by simp
next
  fix ps
  assume r: "reset_players (playerOrder g) (players g) = Inr ps"
    and "dealInitial
              (g\<lparr>status := Phase1, turnIndex := 0, deck := [], discardPile := [],
                 drawnCard := SNull, activeAbility := None,
                 stackWindow := \<lparr>active = False, caller = None, targetValue = None\<rparr>,
                 endTriggeredBy := None, players := ps\<rparr>) d = Inr g'"
  from dealInitial_seats [OF this(2)] reset_players_dom [OF r] show ?thesis by simp
qed

lemma play_again_status:
  assumes "play_again g d = Inr g'"
  shows "g' = g \<or> status g' = Phase1"
  using play_again_cases [OF assms]
proof (elim disjE exE conjE)
  assume "g' = g" then show ?thesis by simp
next
  fix ps
  assume "dealInitial
              (g\<lparr>status := Phase1, turnIndex := 0, deck := [], discardPile := [],
                 drawnCard := SNull, activeAbility := None,
                 stackWindow := \<lparr>active = False, caller = None, targetValue = None\<rparr>,
                 endTriggeredBy := None, players := ps\<rparr>) d = Inr g'"
  from dealInitial_frame [OF this] show ?thesis by simp
qed

lemma peek_expired_frame [simp]:
  "status (peek_expired f g cid) = status g"
  "playerOrder (peek_expired f g cid) = playerOrder g"
  "deck (peek_expired f g cid) = deck g"
  "turnIndex (peek_expired f g cid) = turnIndex g"
  "activeAbility (peek_expired f g cid) = activeAbility g"
  "stackWindow (peek_expired f g cid) = stackWindow g"
  "endTriggeredBy (peek_expired f g cid) = endTriggeredBy g"
  by (simp_all add: peek_expired_def)

lemma peek_expired_dom [simp]: "dom (players (peek_expired f g cid)) = dom (players g)"
  by (auto simp: peek_expired_def split: option.splits)

lemma peek_expired_hand:
  "hand_of (peek_expired f g cid) p = map (on_card (on_id cid f)) (hand_of g p)"
  by (simp add: peek_expired_def hand_of_def split: option.split)

section \<open>The status\<close>

lemma promptEndGame_status:
  "promptEndGame g = Inr g' \<Longrightarrow> status g' = status g \<or> status g' = Finished"
proof -
  assume a: "promptEndGame g = Inr g'"
  then obtain ps where ps: "score_players (playerOrder g) (players g) = Inr ps"
    by (cases "score_players (playerOrder g) (players g)") (simp_all add: promptEndGame_def)
  with a have "g' = g\<lparr>status := Finished, players := ps\<rparr>"
    by (simp add: promptEndGame_def)
  with score_players_dom [OF ps] show ?thesis by simp
qed

lemma advanceTurn_status:
  assumes "advanceTurn g = Inr g'"
  shows "status g' = status g \<or> status g' = Finished"
proof -
  let ?g1 = "g\<lparr>turnIndex := (turnIndex g + 1) mod length (playerOrder g), drawnCard := SNull\<rparr>"
  from assms have "g' = ?g1 \<or> promptEndGame ?g1 = Inr g'"
    by (simp add: advanceTurn_def Let_def split: option.splits if_splits)
  then show ?thesis
  proof
    assume "g' = ?g1" then show ?thesis by simp
  next
    assume "promptEndGame ?g1 = Inr g'"
    from promptEndGame_status [OF this] show ?thesis by simp
  qed
qed

lemma checkEndGameAndAdvance_status:
  assumes "checkEndGameAndAdvance g = Inr g'"
  shows "status g' = status g \<or> status g' = Finished"
  using checkEndGameAndAdvance_cases [OF assms]
proof (elim disjE exE conjE)
  assume "advanceTurn g = Inr g'"
  then show ?thesis by (rule advanceTurn_status)
next
  fix cur pl
  assume p: "players g cur = Some pl"
    and e: "promptEndGame (g\<lparr>players := (players g)(cur \<mapsto> pl\<lparr>isFinalTurn := True\<rparr>)\<rparr>) = Inr g'"
  from promptEndGame_status [OF e] p show ?thesis by (simp add: insert_absorb domI)
qed

lemma handleDiscard_status:
  assumes "handleDiscard g old sid = Inr g'"
  shows "status g' = status g \<or> status g' = Finished"
proof (cases old)
  case (SCard c)
  let ?g1 = "g\<lparr>discardPile := discardPile g @ [c\<lparr>isFaceUp := True\<rparr>]\<rparr>"
  show ?thesis
  proof (cases "is_ability (cvalue c)")
    case True
    with assms SCard show ?thesis by (simp add: handleDiscard_def) (erule subst, simp)
  next
    case False
    with assms SCard have "checkEndGameAndAdvance ?g1 = Inr g'"
      by (simp add: handleDiscard_def)
    from checkEndGameAndAdvance_status [OF this] show ?thesis by simp
  qed
qed (use assms in \<open>simp_all add: handleDiscard_def checkEndGameAndAdvance_status\<close>)

lemma stack_finish_status:
  assumes "stack_finish m g = Inr g'"
  shows "status g' = status g \<or> status g' = Finished"
  using stack_finish_cases [OF assms]
proof (elim disjE)
  assume "g' = g\<lparr>stackWindow := \<lparr>active = False, caller = None, targetValue = None\<rparr>\<rparr>"
  then show ?thesis by simp
next
  assume "promptEndGame (g\<lparr>stackWindow := \<lparr>active = False, caller = None, targetValue = None\<rparr>,
                           activeAbility := None\<rparr>) = Inr g'"
  from promptEndGame_status [OF this] show ?thesis by simp
next
  assume "checkEndGameAndAdvance
            (g\<lparr>stackWindow := \<lparr>active = False, caller = None, targetValue = None\<rparr>\<rparr>) = Inr g'"
  from checkEndGameAndAdvance_status [OF this] show ?thesis by simp
qed

lemma ability_done_status:
  "ability_done g = Inr g' \<Longrightarrow> status g' = status g \<or> status g' = Finished"
  using checkEndGameAndAdvance_status [of "g\<lparr>activeAbility := None\<rparr>" g']
  by (simp add: ability_done_def)

lemma draw_deck_status:
  "draw_deck g sid = Inr g' \<Longrightarrow> status g' = status g \<or> status g' = Finished"
  by (auto simp: draw_deck_def split: if_splits)

lemma draw_discard_status:
  assumes "draw_discard g sid i = Inr g'"
  shows "status g' = status g \<or> status g' = Finished"
proof (cases "nth_opt (playerOrder g) (turnIndex g) = Some sid \<and> \<not> is_card (drawnCard g)
              \<and> activeAbility g = None \<and> discardPile g \<noteq> []")
  case False
  with assms have "g' = g" by (auto simp: draw_discard_def split: if_splits)
  then show ?thesis by simp
next
  case True
  with assms obtain pl where pl: "players g sid = Some pl"
    by (cases "players g sid") (simp_all add: draw_discard_def)
  let ?g2 = "set_hand_slot (g\<lparr>discardPile := butlast (discardPile g)\<rparr>) sid i
               (SCard ((last (discardPile g))\<lparr>isFaceUp := False, knownToPlayer := False\<rparr>))"
  have "handleDiscard ?g2 (js_get (hand pl) i) sid = Inr g'"
    using assms True pl by (simp add: draw_discard_def Let_def)
  from handleDiscard_status [OF this] show ?thesis by simp
qed

lemma swap_drawn_card_status:
  assumes "swap_drawn_card g sid i = Inr g'"
  shows "status g' = status g \<or> status g' = Finished"
proof (cases "nth_opt (playerOrder g) (turnIndex g) = Some sid \<and> is_card (drawnCard g)")
  case False
  with assms have "g' = g"
    by (cases "drawnCard g") (auto simp: swap_drawn_card_def split: if_splits)
  then show ?thesis by simp
next
  case True
  then obtain d where d: "drawnCard g = SCard d" by (auto dest: is_card_cases)
  with True assms obtain pl where pl: "players g sid = Some pl"
    by (cases "players g sid") (simp_all add: swap_drawn_card_def)
  let ?g2 = "(set_hand_slot g sid i (SCard (d\<lparr>isFaceUp := False, knownToPlayer := False\<rparr>)))
               \<lparr>drawnCard := SNull\<rparr>"
  have "handleDiscard ?g2 (js_get (hand pl) i) sid = Inr g'"
    using assms True pl d by (simp add: swap_drawn_card_def Let_def)
  from handleDiscard_status [OF this] show ?thesis by simp
qed

lemma discard_drawn_card_status:
  assumes "discard_drawn_card g sid = Inr g'"
  shows "status g' = status g \<or> status g' = Finished"
proof (cases "nth_opt (playerOrder g) (turnIndex g) = Some sid \<and> is_card (drawnCard g)")
  case False
  with assms have "g' = g"
    by (cases "drawnCard g") (auto simp: discard_drawn_card_def split: if_splits)
  then show ?thesis by simp
next
  case True
  then obtain d where d: "drawnCard g = SCard d" by (auto dest: is_card_cases)
  have "handleDiscard (g\<lparr>drawnCard := SNull\<rparr>) (SCard d) sid = Inr g'"
    using assms True d by (simp add: discard_drawn_card_def)
  from handleDiscard_status [OF this] show ?thesis by simp
qed

lemma call_stack_status:
  "call_stack g sid = Inr g' \<Longrightarrow> status g' = status g \<or> status g' = Finished"
  by (auto simp: call_stack_def split: if_splits)

lemma call_it_status:
  assumes "call_it g sid = Inr g'"
  shows "status g' = status g \<or> status g' = Finished"
proof (cases "nth_opt (playerOrder g) (turnIndex g) = Some sid \<and> \<not> is_card (drawnCard g)
              \<and> activeAbility g = None \<and> \<not> active (stackWindow g) \<and> status g = Playing")
  case False
  with assms have "g' = g" by (auto simp: call_it_def split: if_splits)
  then show ?thesis by simp
next
  case True
  with assms have "advanceTurn (g\<lparr>endTriggeredBy := Some sid\<rparr>) = Inr g'"
    by (simp add: call_it_def)
  from advanceTurn_status [OF this] show ?thesis by simp
qed

lemma stack_match_status:
  "status (stack_match g sid tid i give c) = status g"
proof -
  from stack_match_shape [of g sid tid i give c]
  obtain h a where m: "stack_match g sid tid i give c = h\<lparr>activeAbility := a\<rparr>"
    and h: "status h = status g"
    by fastforce
  then show ?thesis by simp
qed

lemma stack_mismatch_status:
  "status (stack_mismatch g sid) = status g"
  by (simp add: stack_mismatch_def insert_absorb domI split: option.split)

lemma execute_stack_status:
  assumes "execute_stack g sid tid i give = Inr g'"
  shows "status g' = status g \<or> status g' = Finished"
  using execute_stack_cases [OF assms]
proof (elim disjE exE conjE)
  assume "g' = g" then show ?thesis by simp
next
  fix c assume "stack_finish True (stack_match g sid tid i give c) = Inr g'"
  from stack_finish_status [OF this] show ?thesis by (simp add: stack_match_status)
next
  assume "stack_finish False (stack_mismatch g sid) = Inr g'"
  from stack_finish_status [OF this] show ?thesis by (simp add: stack_mismatch_status)
qed

lemma swap_slots_status:
  "status (swap_slots g p1 i p2 j) = status g"
  by (simp add: swap_slots_def Let_def)

lemma jack_respond_status:
  assumes e: "jack_respond g sid i = Inr g'"
  shows "status g' = status g \<or> status g' = Finished"
proof (cases "\<exists>ab j. activeAbility g = Some ab \<and> ability_type ab = ''J'' \<and> jackPhase ab = Some j
                \<and> sid \<noteq> ability_player ab")
  case False
  with e have "g' = g"
    by (auto simp: jack_respond_def split: option.splits if_splits)
  then show ?thesis by simp
next
  case True
  then obtain ab j where ab: "activeAbility g = Some ab" "ability_type ab = ''J''"
      "jackPhase ab = Some j" "sid \<noteq> ability_player ab"
    by blast
  with e obtain jp where jp: "players g (ability_player ab) = Some jp"
    by (cases "players g (ability_player ab)") (simp_all add: jack_respond_def)
  with e ab obtain op where op: "players g sid = Some op"
    by (cases "players g sid") (simp_all add: jack_respond_def)
  have d: "ability_done (swap_slots g (ability_player ab) j sid i) = Inr g'"
    using e ab jp op by (simp add: jack_respond_def)
  from ability_done_status [OF d] show ?thesis by (simp add: swap_slots_status)
qed

lemma play_ability_target_status:
  assumes e: "play_ability_target g sid ty td = Inr g'"
  shows "status g' = status g \<or> status g' = Finished"
proof (cases "activeAbility g")
  case None
  with e show ?thesis by (simp add: play_ability_target_def)
next
  case (Some ab)
  show ?thesis
  proof (cases "ability_player ab = sid \<and> ability_type ab = ty")
    case False
    with e Some have "g' = g" by (auto simp: play_ability_target_def)
    then show ?thesis by simp
  next
    case True
    consider (K) "ty = ''K''" | (J) "ty = ''J''" | (E) "ty = ''8''" | (S) "ty = ''6''"
      | (other) "ty \<noteq> ''K''" "ty \<noteq> ''J''" "ty \<noteq> ''8''" "ty \<noteq> ''6''"
      by blast
    then show ?thesis
    proof cases
      case K
      with e Some True obtain p1 where p1: "players g sid = Some p1"
        by (cases "players g sid") (simp_all add: play_ability_target_def)
      with e Some True K obtain p2 where p2: "players g (opponentId td) = Some p2"
        by (cases "players g (opponentId td)") (simp_all add: play_ability_target_def)
      have d: "ability_done (swap_slots g sid (myIndex td) (opponentId td) (oppIndex td)) = Inr g'"
        using e Some True K p1 p2 by (simp add: play_ability_target_def)
      from ability_done_status [OF d] show ?thesis by (simp add: swap_slots_status)
    next
      case J
      with e Some True have "g' = g\<lparr>activeAbility := Some (ab\<lparr>jackPhase := Some (myIndex td)\<rparr>)\<rparr>"
        by (auto simp: play_ability_target_def)
      then show ?thesis by simp
    next
      case E
      with e Some True obtain opp where opp: "players g (opponentId td) = Some opp"
        by (cases "players g (opponentId td)") (simp_all add: play_ability_target_def)
      with e Some True E obtain c where c: "js_get (hand opp) (oppIndex td) = SCard c"
        by (cases "js_get (hand opp) (oppIndex td)") (simp_all add: play_ability_target_def)
      have d: "ability_done (set_hand_slot g (opponentId td) (oppIndex td)
                 (SCard (c\<lparr>knownToOpponent := True\<rparr>))) = Inr g'"
        using e Some True E opp c by (simp add: play_ability_target_def)
      from ability_done_status [OF d] show ?thesis by simp
    next
      case S
      with e Some True obtain p1 where p1: "players g sid = Some p1"
        by (cases "players g sid") (simp_all add: play_ability_target_def)
      with e Some True S obtain c where c: "js_get (hand p1) (myIndex td) = SCard c"
        by (cases "js_get (hand p1) (myIndex td)") (simp_all add: play_ability_target_def)
      have d: "ability_done (set_hand_slot g sid (myIndex td) (SCard (c\<lparr>knownToPlayer := True\<rparr>)))
                 = Inr g'"
        using e Some True S p1 c by (simp add: play_ability_target_def)
      from ability_done_status [OF d] show ?thesis by simp
    next
      case other
      with e Some True have "ability_done g = Inr g'"
        by (simp add: play_ability_target_def)
      from ability_done_status [OF this] show ?thesis .
    qed
  qed
qed

lemma phase1_timeout_status:
  assumes "phase1_timeout g = Inr g'"
  shows "status g' = status g \<or> status g' = Playing"
proof (cases "status g = Phase1")
  case False
  with assms show ?thesis by (auto simp: phase1_timeout_def)
next
  case True
  with assms obtain ps where ps: "forget_players (playerOrder g) (players g) = Inr ps"
    by (cases "forget_players (playerOrder g) (players g)") (simp_all add: phase1_timeout_def)
  with assms True have "g' = g\<lparr>status := Playing, players := ps\<rparr>"
    by (simp add: phase1_timeout_def)
  then show ?thesis by simp
qed

lemma player_ready_status:
  assumes "player_ready g sid d = Inr g'"
  shows "status g' = status g \<or> status g' = Phase1"
proof -
  from assms obtain pl where pl: "players g sid = Some pl"
    and c: "g' = g\<lparr>players := (players g)(sid \<mapsto> pl\<lparr>ready := True\<rparr>)\<rparr>
         \<or> (status g = Lobby \<and>
            (\<exists>g2. dealInitial (g\<lparr>players := (players g)(sid \<mapsto> pl\<lparr>ready := True\<rparr>)\<rparr>) d = Inr g2
               \<and> g' = g2\<lparr>status := Phase1\<rparr>))"
    by (rule player_ready_cases)
  from c show ?thesis by auto
qed

lemma join_game_status: "join_game g sid n = Inr g' \<Longrightarrow> status g' = status g"
  by (auto simp: join_game_def split: if_splits)

text \<open>No handler takes a game back to the lobby.\<close>

lemma handle_event_status:
  assumes "handle_event g sid ev = Inr g'"
  shows "status g' = status g \<or> status g' \<noteq> Lobby"
proof (cases ev)
  case (JoinGame n)
  with assms join_game_status [of g sid n g'] show ?thesis by simp
next
  case (PlayerReady d)
  with assms player_ready_status [of g sid d g'] show ?thesis by auto
next
  case Phase1Timeout
  with assms phase1_timeout_status [of g g'] show ?thesis by auto
next
  case DrawDeck
  with assms draw_deck_status [of g sid g'] show ?thesis by auto
next
  case (DrawDiscard i)
  with assms draw_discard_status [of g sid i g'] show ?thesis by auto
next
  case (SwapDrawnCard i)
  with assms swap_drawn_card_status [of g sid i g'] show ?thesis by auto
next
  case DiscardDrawnCard
  with assms discard_drawn_card_status [of g sid g'] show ?thesis by auto
next
  case CallStack
  with assms call_stack_status [of g sid g'] show ?thesis by auto
next
  case (ExecuteStack t i k)
  with assms execute_stack_status [of g sid t i k g'] show ?thesis by auto
next
  case (PlayAbilityTarget ty td)
  with assms play_ability_target_status [of g sid ty td g'] show ?thesis by auto
next
  case (JackRespond i)
  with assms jack_respond_status [of g sid i g'] show ?thesis by auto
next
  case CallIt
  with assms call_it_status [of g sid g'] show ?thesis by auto
next
  case (PlayAgain d)
  with assms play_again_status [of g d g'] show ?thesis by auto
next
  case (Peek8Expired cid)
  with assms show ?thesis by (auto simp: peek8_expired_def)
next
  case (Peek6Expired cid)
  with assms show ?thesis by (auto simp: peek6_expired_def)
qed

section \<open>What every reachable game satisfies\<close>

lemma cards_of_on_card [simp]: "(cards_of (map (on_card f) h) = []) = (cards_of h = [])"
  by (induction h rule: cards_of.induct) simp_all

lemma is_card_on_card [simp]: "is_card (on_card f s) = is_card s"
  by (cases s) simp_all

lemma peek_expired_lobby: "lobby_empty g \<Longrightarrow> lobby_empty (peek_expired f g cid)"
  by (simp add: lobby_empty_def peek_expired_hand) (simp add: peek_expired_def)

lemma join_game_lobby:
  assumes "lobby_empty g" and "join_game g sid n = Inr g'"
  shows "lobby_empty g'"
proof (cases "length (playerOrder g) < 2 \<and> players g sid = None")
  case False
  with assms show ?thesis by (auto simp: join_game_def)
next
  case True
  with assms(2)
  have g': "g' = g\<lparr>players := (players g)(sid \<mapsto>
                     \<lparr>pid = sid, number = length (playerOrder g) + 1, name = n,
                      hand = [SNull, SNull, SNull, SNull], score = Some 0, ready = False,
                      isFinalTurn = False\<rparr>),
                   playerOrder := playerOrder g @ [sid]\<rparr>"
    by (simp add: join_game_def)
  show ?thesis
    using assms(1) unfolding g' by (simp add: lobby_empty_def hand_of_def)
qed

lemma player_ready_lobby:
  assumes "lobby_empty g" and "player_ready g sid d = Inr g'"
  shows "lobby_empty g'"
proof -
  from assms(2) obtain pl where pl: "players g sid = Some pl"
    and c: "g' = g\<lparr>players := (players g)(sid \<mapsto> pl\<lparr>ready := True\<rparr>)\<rparr>
         \<or> (status g = Lobby \<and>
            (\<exists>g2. dealInitial (g\<lparr>players := (players g)(sid \<mapsto> pl\<lparr>ready := True\<rparr>)\<rparr>) d = Inr g2
               \<and> g' = g2\<lparr>status := Phase1\<rparr>))"
    by (rule player_ready_cases)
  from c show ?thesis
  proof
    assume g': "g' = g\<lparr>players := (players g)(sid \<mapsto> pl\<lparr>ready := True\<rparr>)\<rparr>"
    have "hand_of g' p = hand_of g p" for p
      using pl by (simp add: g' hand_of_def)
    with assms(1) show ?thesis by (simp add: lobby_empty_def g')
  next
    assume "status g = Lobby \<and>
            (\<exists>g2. dealInitial (g\<lparr>players := (players g)(sid \<mapsto> pl\<lparr>ready := True\<rparr>)\<rparr>) d = Inr g2
               \<and> g' = g2\<lparr>status := Phase1\<rparr>)"
    then have "status g' = Phase1" by auto
    then show ?thesis by (simp add: lobby_empty_def)
  qed
qed

text \<open>In the lobby every other message finds nothing to act on.\<close>

lemma handle_event_lobby:
  assumes l: "lobby_empty g" and e: "handle_event g sid ev = Inr g'"
  shows "lobby_empty g'"
proof (cases "status g' = Lobby")
  case False
  then show ?thesis by (simp add: lobby_empty_def)
next
  case True
  with handle_event_status [OF e] have s: "status g = Lobby" by simp
  with l have h: "deck g = []" "discardPile g = []" "\<not> is_card (drawnCard g)"
    "activeAbility g = None" "\<not> active (stackWindow g)"
    by (simp_all add: lobby_empty_def)
  show ?thesis
  proof (cases ev)
    case (JoinGame n)
    with e l show ?thesis by (simp add: join_game_lobby)
  next
    case (PlayerReady d)
    with e l show ?thesis by (simp add: player_ready_lobby)
  next
    case Phase1Timeout
    with e s have "g' = g" by (simp add: phase1_timeout_def)
    with l show ?thesis by simp
  next
    case DrawDeck
    with e h have "g' = g \<or> g' = g\<lparr>drawnCard := SUndef\<rparr>"
      by (auto simp: draw_deck_def split: if_splits)
    with l show ?thesis by (auto simp: lobby_empty_def hand_of_def)
  next
    case (DrawDiscard i)
    with e h have "g' = g" by (auto simp: draw_discard_def split: if_splits)
    with l show ?thesis by simp
  next
    case (SwapDrawnCard i)
    with e h have "g' = g"
      by (cases "drawnCard g") (auto simp: swap_drawn_card_def split: if_splits)
    with l show ?thesis by simp
  next
    case DiscardDrawnCard
    with e h have "g' = g"
      by (cases "drawnCard g") (auto simp: discard_drawn_card_def split: if_splits)
    with l show ?thesis by simp
  next
    case CallStack
    with e h have "g' = g" by (simp add: call_stack_def)
    with l show ?thesis by simp
  next
    case (ExecuteStack t i k)
    with e h have "g' = g" by (simp add: execute_stack_def)
    with l show ?thesis by simp
  next
    case (PlayAbilityTarget ty td)
    with e h have "g' = g" by (simp add: play_ability_target_def)
    with l show ?thesis by simp
  next
    case (JackRespond i)
    with e h have "g' = g" by (simp add: jack_respond_def)
    with l show ?thesis by simp
  next
    case CallIt
    with e s have "g' = g" by (auto simp: call_it_def split: if_splits)
    with l show ?thesis by simp
  next
    case (PlayAgain d)
    with e s have "g' = g" by (simp add: play_again_def)
    with l show ?thesis by simp
  next
    case (Peek8Expired cid)
    with e l show ?thesis by (auto simp: peek8_expired_def peek_expired_lobby)
  next
    case (Peek6Expired cid)
    with e l show ?thesis by (auto simp: peek6_expired_def peek_expired_lobby)
  qed
qed

lemma handle_event_seated:
  assumes s: "seated g" and e: "handle_event g sid ev = Inr g'"
  shows "seated g'"
proof (cases ev)
  case (JoinGame n)
  with e have "join_game g sid n = Inr g'" by simp
  from join_game_seated [OF s this] show ?thesis .
next
  case (PlayerReady d)
  with e have "player_ready g sid d = Inr g'" by simp
  from player_ready_seats [OF this] s show ?thesis by (simp add: seated_def)
next
  case Phase1Timeout
  with e have "phase1_timeout g = Inr g'" by simp
  from phase1_timeout_seats [OF this] s show ?thesis by (simp add: seated_def)
next
  case DrawDeck
  with e have "draw_deck g sid = Inr g'" by simp
  from draw_deck_seats [OF this] s show ?thesis by (simp add: seated_def)
next
  case (DrawDiscard i)
  with e have "draw_discard g sid i = Inr g'" by simp
  from draw_discard_seats [OF this] s show ?thesis by (simp add: seated_def)
next
  case (SwapDrawnCard i)
  with e have "swap_drawn_card g sid i = Inr g'" by simp
  from swap_drawn_card_seats [OF this] s show ?thesis by (simp add: seated_def)
next
  case DiscardDrawnCard
  with e have "discard_drawn_card g sid = Inr g'" by simp
  from discard_drawn_card_seats [OF this] s show ?thesis by (simp add: seated_def)
next
  case CallStack
  with e have "call_stack g sid = Inr g'" by simp
  from call_stack_seats [OF this] s show ?thesis by (simp add: seated_def)
next
  case (ExecuteStack t i k)
  with e have "execute_stack g sid t i k = Inr g'" by simp
  from execute_stack_seats [OF this] s show ?thesis by (simp add: seated_def)
next
  case (PlayAbilityTarget ty td)
  with e have "play_ability_target g sid ty td = Inr g'" by simp
  from play_ability_target_seats [OF this] s show ?thesis by (simp add: seated_def)
next
  case (JackRespond i)
  with e have "jack_respond g sid i = Inr g'" by simp
  from jack_respond_seats [OF this] s show ?thesis by (simp add: seated_def)
next
  case CallIt
  with e have "call_it g sid = Inr g'" by simp
  from call_it_seats [OF this] s show ?thesis by (simp add: seated_def)
next
  case (PlayAgain d)
  with e have "play_again g d = Inr g'" by simp
  from play_again_seats [OF this] s show ?thesis by (simp add: seated_def)
next
  case (Peek8Expired cid)
  with e have "g' = peek_expired (\<lambda>c. c\<lparr>knownToOpponent := False\<rparr>) g cid"
    by (auto simp: peek8_expired_def)
  with s show ?thesis by (simp add: seated_def)
next
  case (Peek6Expired cid)
  with e have "g' = peek_expired (\<lambda>c. c\<lparr>knownToPlayer := False\<rparr>) g cid"
    by (auto simp: peek6_expired_def)
  with s show ?thesis by (simp add: seated_def)
qed

lemma run_events_invariants:
  "seated g \<Longrightarrow> lobby_empty g \<Longrightarrow> run_events g es = Inr g' \<Longrightarrow> seated g' \<and> lobby_empty g'"
proof (induction es arbitrary: g)
  case Nil
  then show ?case by simp
next
  case (Cons x es)
  obtain sid ev where x: "x = (sid, ev)" by (cases x)
  with Cons.prems(3) obtain g1 where h: "handle_event g sid ev = Inr g1"
    and r: "run_events g1 es = Inr g'"
    by (cases "handle_event g sid ev") simp_all
  from handle_event_seated [OF Cons.prems(1) h] handle_event_lobby [OF Cons.prems(2) h] r
  show ?case by (rule Cons.IH)
qed

lemma createGameState_invariants: "seated createGameState \<and> lobby_empty createGameState"
  by (simp add: seated_def lobby_empty_def createGameState_def hand_of_def)

lemma reachable_seated: "run_events createGameState es = Inr g \<Longrightarrow> seated g"
  using run_events_invariants [of createGameState es g] createGameState_invariants by simp

lemma reachable_lobby_empty: "run_events createGameState es = Inr g \<Longrightarrow> lobby_empty g"
  using run_events_invariants [of createGameState es g] createGameState_invariants by simp

lemma cards_of_member: "SCard c \<in> set h \<Longrightarrow> cards_of h \<noteq> []"
  by (induction h rule: cards_of.induct) auto

text \<open>The redaction of \<open>sanitizeGameState\<close> once the game has left the lobby.\<close>

lemma sanitize_dealt:
  assumes "status g \<noteq> Lobby"
  shows "(players g p = Some pl \<and> i < length (hand pl) \<and> hand pl ! i = SCard c \<and> \<not> isFaceUp c \<longrightarrow>
            get_hand_slot (sanitizeGameState g v) p i =
              (if status g = Finished \<or> (status g = Phase1 \<and> p = v \<and> (i = 2 \<or> i = 3))
                  \<or> (knownToPlayer c \<and> p = v) \<or> (knownToOpponent c \<and> p \<noteq> v)
               then SCard c
               else SCard (c\<lparr>cvalue := ''?'', suit := ''?'', card_id := ''hidden_'' @ string_of_nat i\<rparr>))) \<and>
         (players g p = Some pl \<and> i < length (hand pl) \<and> hand pl ! i = SCard c \<and> isFaceUp c \<longrightarrow>
            get_hand_slot (sanitizeGameState g v) p i = SCard c) \<and>
         (drawnCard g = SCard d \<longrightarrow>
            drawnCard (sanitizeGameState g v) =
              (if status g \<noteq> Finished \<and> nth_opt (playerOrder g) (turnIndex g) \<noteq> Some v
               then SCard (d\<lparr>cvalue := ''?'', suit := ''?'', card_id := ''hidden_drawn''\<rparr>)
               else SCard d))"
proof (intro conjI impI)
  assume a: "players g p = Some pl \<and> i < length (hand pl) \<and> hand pl ! i = SCard c \<and> \<not> isFaceUp c"
  then show "get_hand_slot (sanitizeGameState g v) p i =
              (if status g = Finished \<or> (status g = Phase1 \<and> p = v \<and> (i = 2 \<or> i = 3))
                  \<or> (knownToPlayer c \<and> p = v) \<or> (knownToOpponent c \<and> p \<noteq> v)
               then SCard c
               else SCard (c\<lparr>cvalue := ''?'', suit := ''?'', card_id := ''hidden_'' @ string_of_nat i\<rparr>))"
    using sanitize_hand_slot [OF assms, of p pl i v]
    by (auto simp: redact_slot_def hide_card_def)
next
  assume a: "players g p = Some pl \<and> i < length (hand pl) \<and> hand pl ! i = SCard c \<and> isFaceUp c"
  then show "get_hand_slot (sanitizeGameState g v) p i = SCard c"
    using sanitize_hand_slot [OF assms, of p pl i v]
    by (simp add: redact_slot_def)
next
  assume d: "drawnCard g = SCard d"
  have "status g = Playing \<or> status g = Phase1 \<or> status g = Finished"
    using assms by (cases "status g") auto
  then show "drawnCard (sanitizeGameState g v) =
              (if status g \<noteq> Finished \<and> nth_opt (playerOrder g) (turnIndex g) \<noteq> Some v
               then SCard (d\<lparr>cvalue := ''?'', suit := ''?'', card_id := ''hidden_drawn''\<rparr>)
               else SCard d)"
    using d by (auto simp: sanitizeGameState_def hide_card_def Let_def)
qed

lemma nth_opt_member: "nth_opt xs i = Some x \<Longrightarrow> x \<in> set xs"
  by (auto simp: nth_opt_def split: if_splits)

section \<open>Where the drawn card goes when a stack ends the turn\<close>

lemma advanceTurn_loss:
  assumes "advanceTurn g = Inr g'"
  shows "drawnCard g' = SNull \<and> card_ids g' + slot_ids [drawnCard g] = card_ids g"
  using advanceTurn_frame [OF assms] advanceTurn_card_ids [OF assms] by simp

lemma checkEndGameAndAdvance_loss:
  assumes "checkEndGameAndAdvance g = Inr g'"
  shows "drawnCard g' = drawnCard g \<and> card_ids g' = card_ids g
       \<or> drawnCard g' = SNull \<and> card_ids g' + slot_ids [drawnCard g] = card_ids g"
  using checkEndGameAndAdvance_cases [OF assms]
proof (elim disjE exE conjE)
  assume "advanceTurn g = Inr g'"
  from advanceTurn_loss [OF this] show ?thesis by simp
next
  fix cur pl
  let ?g1 = "g\<lparr>players := (players g)(cur \<mapsto> pl\<lparr>isFinalTurn := True\<rparr>)\<rparr>"
  assume p: "players g cur = Some pl" and e: "promptEndGame ?g1 = Inr g'"
  have "card_ids ?g1 = card_ids g"
    by (rule card_ids_same_hands) (simp_all add: hand_of_def p)
  with promptEndGame_card_ids [OF e] promptEndGame_frame [OF e] show ?thesis by simp
qed

lemma stack_finish_loss:
  assumes "stack_finish m g = Inr g'"
  shows "drawnCard g' = drawnCard g \<and> card_ids g' = card_ids g
       \<or> drawnCard g' = SNull \<and> card_ids g' + slot_ids [drawnCard g] = card_ids g"
proof -
  let ?g1 = "g\<lparr>stackWindow := \<lparr>active = False, caller = None, targetValue = None\<rparr>\<rparr>"
  from stack_finish_cases [OF assms]
  consider (plain) "g' = ?g1"
    | (ended) "promptEndGame (?g1\<lparr>activeAbility := None\<rparr>) = Inr g'"
    | (advance) "checkEndGameAndAdvance ?g1 = Inr g'"
    by blast
  then show ?thesis
  proof cases
    case plain then show ?thesis by simp
  next
    case ended
    from promptEndGame_card_ids [OF this] promptEndGame_frame [OF this] show ?thesis by simp
  next
    case advance
    from checkEndGameAndAdvance_loss [OF this] show ?thesis by simp
  qed
qed

lemma execute_stack_loss:
  assumes s: "seated g" and e: "execute_stack g sid tid i give = Inr g'"
  shows "drawnCard g' = drawnCard g \<and> card_ids g' = card_ids g
       \<or> drawnCard g' = SNull \<and> card_ids g' + slot_ids [drawnCard g] = card_ids g"
proof -
  from execute_stack_cases [OF e]
  consider (idle) "g' = g"
    | (hit) c where "players g tid \<noteq> None" "get_hand_slot g tid i = SCard c"
                    "stack_finish True (stack_match g sid tid i give c) = Inr g'"
    | (miss) "stack_finish False (stack_mismatch g sid) = Inr g'"
    by blast
  then show ?thesis
  proof cases
    case idle then show ?thesis by simp
  next
    case hit
    from stack_finish_loss [OF hit(3)] stack_match_card_ids [OF s hit(1,2)]
    show ?thesis by simp
  next
    case miss
    from stack_finish_loss [OF miss] stack_mismatch_card_ids [OF s]
    show ?thesis by simp
  qed
qed

lemma stack_finish_match_cases:
  assumes "stack_finish True g = Inr g'"
  shows "activeAbility g' \<noteq> None \<or> status g' = Finished
       \<or> checkEndGameAndAdvance
            (g\<lparr>stackWindow := \<lparr>active = False, caller = None, targetValue = None\<rparr>\<rparr>) = Inr g'"
proof (cases "anyEmpty (playerOrder g) (players g)")
  case (Inl e)
  with assms show ?thesis by (simp add: stack_finish_def)
next
  case (Inr b)
  show ?thesis
  proof (cases b)
    case True
    with assms Inr
    have "promptEndGame (g\<lparr>stackWindow := \<lparr>active = False, caller = None, targetValue = None\<rparr>,
                           activeAbility := None\<rparr>) = Inr g'"
      by (simp add: stack_finish_def)
    from promptEndGame_frame [OF this] show ?thesis by simp
  next
    case False
    with assms Inr show ?thesis
      by (cases "activeAbility g = None") (auto simp: stack_finish_def)
  qed
qed

lemma checkEndGameAndAdvance_turn:
  assumes "checkEndGameAndAdvance g = Inr g'" and "status g' \<noteq> Finished"
  shows "advanceTurn g = Inr g'"
  using checkEndGameAndAdvance_cases [OF assms(1)]
proof (elim disjE exE conjE)
  fix cur pl
  assume "promptEndGame (g\<lparr>players := (players g)(cur \<mapsto> pl\<lparr>isFinalTurn := True\<rparr>)\<rparr>) = Inr g'"
  from promptEndGame_frame [OF this] assms(2) show ?thesis by simp
qed

lemma execute_stack_match:
  assumes "active (stackWindow g)" and "caller (stackWindow g) = Some sid"
      and "get_hand_slot g tid i = SCard c" and "targetValue (stackWindow g) = Some (cvalue c)"
      and "execute_stack g sid tid i k = Inr g'"
  shows "stack_finish True (stack_match g sid tid i k c) = Inr g'"
proof -
  from assms(3) obtain tp where tp: "players g tid = Some tp" and c: "js_get (hand tp) i = SCard c"
    by (cases "players g tid") (simp_all add: get_hand_slot_def)
  from assms(1,2,5) tp obtain cp where "players g sid = Some cp"
    by (cases "players g sid") (simp_all add: execute_stack_def)
  with assms tp c show ?thesis by (simp add: execute_stack_def)
qed

section \<open>The end of a matching stack\<close>


lemma nullish_reveal [simp]:
  "list_all (\<lambda>s. s = SNull \<or> s = SHole) (map reveal_slot h) = list_all (\<lambda>s. s = SNull \<or> s = SHole) h"
  by (induction h rule: cards_of.induct) simp_all

lemma stackerCards_reveal [simp]:
  "(stackerCards (map reveal_slot h) = []) = (stackerCards h = [])"
  by (induction h rule: cards_of.induct) (simp_all add: stackerCards_def)








section \<open>Two players at the table\<close>

lemma player_ready_order:
  assumes "player_ready g sid d = Inr g'"
  shows "playerOrder g' = playerOrder g \<and> (status g' \<noteq> status g \<longrightarrow> length (playerOrder g) = 2)"
proof -
  from assms obtain pl where pl: "players g sid = Some pl"
    by (cases "players g sid") (simp_all add: player_ready_def)
  let ?g1 = "g\<lparr>players := (players g)(sid \<mapsto> pl\<lparr>ready := True\<rparr>)\<rparr>"
  show ?thesis
  proof (cases "length (playerOrder g) = 2")
    case True
    with player_ready_seats [OF assms] show ?thesis by simp
  next
    case False
    with assms pl have "g' = ?g1"
      by (simp add: player_ready_def Let_def)
    then show ?thesis by simp
  qed
qed

lemma handle_event_order:
  assumes e: "handle_event g sid ev = Inr g'" and j: "\<And>n. ev \<noteq> JoinGame n"
  shows "playerOrder g' = playerOrder g"
proof (cases ev)
  case (JoinGame n)
  with j [of n] show ?thesis by simp
next
  case (PlayerReady d)
  with e player_ready_seats [of g sid d g'] show ?thesis by simp
next
  case Phase1Timeout
  with e phase1_timeout_seats [of g g'] show ?thesis by simp
next
  case DrawDeck
  with e draw_deck_seats [of g sid g'] show ?thesis by simp
next
  case (DrawDiscard i)
  with e draw_discard_seats [of g sid i g'] show ?thesis by simp
next
  case (SwapDrawnCard i)
  with e swap_drawn_card_seats [of g sid i g'] show ?thesis by simp
next
  case DiscardDrawnCard
  with e discard_drawn_card_seats [of g sid g'] show ?thesis by simp
next
  case CallStack
  with e call_stack_seats [of g sid g'] show ?thesis by simp
next
  case (ExecuteStack t i k)
  with e execute_stack_seats [of g sid t i k g'] show ?thesis by simp
next
  case (PlayAbilityTarget ty td)
  with e play_ability_target_seats [of g sid ty td g'] show ?thesis by simp
next
  case (JackRespond i)
  with e jack_respond_seats [of g sid i g'] show ?thesis by simp
next
  case CallIt
  with e call_it_seats [of g sid g'] show ?thesis by simp
next
  case (PlayAgain d)
  with e play_again_seats [of g d g'] show ?thesis by simp
next
  case (Peek8Expired cid)
  with e show ?thesis by (auto simp: peek8_expired_def)
next
  case (Peek6Expired cid)
  with e show ?thesis by (auto simp: peek6_expired_def)
qed

lemma lobby_stays:
  assumes l: "lobby_empty g" and s: "status g = Lobby" and e: "handle_event g sid ev = Inr g'"
      and r: "\<And>d. ev \<noteq> PlayerReady d"
  shows "status g' = Lobby"
proof -
  from l s have h: "deck g = []" "discardPile g = []" "\<not> is_card (drawnCard g)"
    "activeAbility g = None" "\<not> active (stackWindow g)"
    by (simp_all add: lobby_empty_def)
  show ?thesis
  proof (cases ev)
    case (JoinGame n)
    with e s join_game_status [of g sid n g'] show ?thesis by simp
  next
    case (PlayerReady d)
    with r [of d] show ?thesis by simp
  next
    case Phase1Timeout
    with e s show ?thesis by (simp add: phase1_timeout_def)
  next
    case DrawDeck
    with e h s show ?thesis by (auto simp: draw_deck_def split: if_splits)
  next
    case (DrawDiscard i)
    with e h s show ?thesis by (auto simp: draw_discard_def split: if_splits)
  next
    case (SwapDrawnCard i)
    with e h s show ?thesis
      by (cases "drawnCard g") (auto simp: swap_drawn_card_def split: if_splits)
  next
    case DiscardDrawnCard
    with e h s show ?thesis
      by (cases "drawnCard g") (auto simp: discard_drawn_card_def split: if_splits)
  next
    case CallStack
    with e h s show ?thesis by (simp add: call_stack_def)
  next
    case (ExecuteStack t i k)
    with e h s show ?thesis by (simp add: execute_stack_def)
  next
    case (PlayAbilityTarget ty td)
    with e h s show ?thesis by (simp add: play_ability_target_def)
  next
    case (JackRespond i)
    with e h s show ?thesis by (simp add: jack_respond_def)
  next
    case CallIt
    with e s show ?thesis by (auto simp: call_it_def split: if_splits)
  next
    case (PlayAgain d)
    with e s show ?thesis by (simp add: play_again_def)
  next
    case (Peek8Expired cid)
    with e s show ?thesis by (auto simp: peek8_expired_def)
  next
    case (Peek6Expired cid)
    with e s show ?thesis by (auto simp: peek6_expired_def)
  qed
qed

lemma join_game_order:
  "join_game g sid n = Inr g' \<Longrightarrow> length (playerOrder g) = 2 \<Longrightarrow> playerOrder g' = playerOrder g"
  by (auto simp: join_game_def)

lemma handle_event_full_table:
  assumes l: "lobby_empty g" and t: "full_table g" and e: "handle_event g sid ev = Inr g'"
  shows "full_table g'"
proof (cases "status g' = Lobby")
  case True
  then show ?thesis by (simp add: full_table_def)
next
  case False
  show ?thesis
  proof (cases "status g = Lobby")
    case s: True
    with lobby_stays [OF l s e] False obtain d where "ev = PlayerReady d" by blast
    with e have "player_ready g sid d = Inr g'" by simp
    from player_ready_order [OF this] s False show ?thesis by (simp add: full_table_def)
  next
    case n: False
    with t have two: "length (playerOrder g) = 2" by (simp add: full_table_def)
    have "playerOrder g' = playerOrder g"
    proof (cases "\<exists>n. ev = JoinGame n")
      case True
      then obtain n where "ev = JoinGame n" by blast
      with e have "join_game g sid n = Inr g'" by simp
      from this two show ?thesis by (rule join_game_order)
    next
      case False
      with e show ?thesis by (intro handle_event_order) auto
    qed
    with two show ?thesis by (simp add: full_table_def)
  qed
qed

lemma reachable_full_table:
  assumes "run_events createGameState es = Inr g"
  shows "full_table g"
proof -
  have "seated g0 \<Longrightarrow> lobby_empty g0 \<Longrightarrow> full_table g0 \<Longrightarrow> run_events g0 es = Inr g
      \<Longrightarrow> full_table g" for g0
  proof (induction es arbitrary: g0)
    case Nil
    then show ?case by simp
  next
    case (Cons x es)
    obtain sid ev where x: "x = (sid, ev)" by (cases x)
    with Cons.prems(4) obtain g1 where h: "handle_event g0 sid ev = Inr g1"
      and r: "run_events g1 es = Inr g"
      by (cases "handle_event g0 sid ev") simp_all
    from handle_event_seated [OF Cons.prems(1) h] handle_event_lobby [OF Cons.prems(2) h]
      handle_event_full_table [OF Cons.prems(2,3) h] r
    show ?case by (rule Cons.IH)
  qed
  moreover have "full_table createGameState"
    by (simp add: full_table_def createGameState_def)
  ultimately show ?thesis
    using createGameState_invariants assms by blast
qed

section \<open>A discard changes the game\<close>

lemma score_players_final:
  "score_players po ps = Inr ps' \<Longrightarrow> ps p = Some pl \<Longrightarrow>
     \<exists>pl'. ps' p = Some pl' \<and> isFinalTurn pl' = isFinalTurn pl"
  using score_players_hands [of po ps ps' p] by (auto simp: reveal_player_def)

lemma promptEndGame_final:
  assumes "promptEndGame g = Inr g'" and "players g p = Some pl"
  shows "\<exists>pl'. players g' p = Some pl' \<and> isFinalTurn pl' = isFinalTurn pl"
proof -
  from assms(1) obtain ps where ps: "score_players (playerOrder g) (players g) = Inr ps"
    by (cases "score_players (playerOrder g) (players g)") (simp_all add: promptEndGame_def)
  with assms(1) have "players g' = ps" by (auto simp: promptEndGame_def)
  with score_players_final [OF ps assms(2)] show ?thesis by simp
qed

lemma advanceTurn_turn:
  assumes "advanceTurn g = Inr g'"
  shows "turnIndex g' = (turnIndex g + 1) mod length (playerOrder g)"
proof -
  let ?g1 = "g\<lparr>turnIndex := (turnIndex g + 1) mod length (playerOrder g), drawnCard := SNull\<rparr>"
  from assms have "g' = ?g1 \<or> promptEndGame ?g1 = Inr g'"
    by (simp add: advanceTurn_def Let_def split: option.splits if_splits)
  then show ?thesis
  proof
    assume "g' = ?g1" then show ?thesis by simp
  next
    assume "promptEndGame ?g1 = Inr g'"
    from promptEndGame_frame [OF this] show ?thesis by simp
  qed
qed

text \<open>
  \<^verbatim>\<open>checkEndGameAndAdvance\<close> at a table of two: the turn passes, or the player to move
  gets his \<^verbatim>\<open>isFinalTurn\<close> set, which it was not.
\<close>

lemma checkEndGameAndAdvance_changes:
  assumes c: "checkEndGameAndAdvance g = Inr g'"
      and t: "nth_opt (playerOrder g) (turnIndex g) = Some sid"
      and two: "length (playerOrder g) = 2"
  shows "turnIndex g' \<noteq> turnIndex g
       \<or> (\<exists>pl pl'. players g sid = Some pl \<and> \<not> isFinalTurn pl \<and>
                     players g' sid = Some pl' \<and> isFinalTurn pl')"
proof -
  from c t obtain pl where pl: "players g sid = Some pl"
    by (cases "players g sid") (simp_all add: checkEndGameAndAdvance_def)
  from c t pl obtain afu where afu: "allFaceUp (hand pl) = Inr afu"
    by (cases "allFaceUp (hand pl)") (simp_all add: checkEndGameAndAdvance_def)
  show ?thesis
  proof (cases "afu \<and> \<not> isFinalTurn pl")
    case True
    let ?g1 = "g\<lparr>players := (players g)(sid \<mapsto> pl\<lparr>isFinalTurn := True\<rparr>)\<rparr>"
    from c t pl afu True have "promptEndGame ?g1 = Inr g'"
      by (simp add: checkEndGameAndAdvance_def)
    from promptEndGame_final [OF this, of sid "pl\<lparr>isFinalTurn := True\<rparr>"]
    obtain pl' where "players g' sid = Some pl'" "isFinalTurn pl'" by auto
    with pl True show ?thesis by blast
  next
    case False
    with c t pl afu have "advanceTurn g = Inr g'"
      by (auto simp: checkEndGameAndAdvance_def)
    from advanceTurn_turn [OF this] two have "turnIndex g' = (turnIndex g + 1) mod 2" by simp
    moreover from t two have "turnIndex g < 2" by (auto simp: nth_opt_def split: if_splits)
    ultimately have "turnIndex g' \<noteq> turnIndex g" by presburger
    then show ?thesis by simp
  qed
qed

lemma handleDiscard_changes:
  assumes h: "handleDiscard g old sid = Inr g'" and a: "activeAbility g = None"
      and t: "nth_opt (playerOrder g) (turnIndex g) = Some sid"
      and two: "length (playerOrder g) = 2"
  shows "activeAbility g' \<noteq> None \<or> turnIndex g' \<noteq> turnIndex g
       \<or> (\<exists>pl pl'. players g sid = Some pl \<and> \<not> isFinalTurn pl \<and>
                     players g' sid = Some pl' \<and> isFinalTurn pl')"
proof (cases old)
  case (SCard c)
  let ?g1 = "g\<lparr>discardPile := discardPile g @ [c\<lparr>isFaceUp := True\<rparr>]\<rparr>"
  show ?thesis
  proof (cases "is_ability (cvalue c)")
    case True
    with h SCard show ?thesis by (auto simp: handleDiscard_def)
  next
    case False
    with h SCard have "checkEndGameAndAdvance ?g1 = Inr g'"
      by (simp add: handleDiscard_def)
    from checkEndGameAndAdvance_changes [OF this, of sid] t two show ?thesis by simp
  qed
qed (use h t two checkEndGameAndAdvance_changes [of g g' sid] in \<open>simp_all add: handleDiscard_def\<close>)



section \<open>More games the handlers reach\<close>














section \<open>Card values and scores\<close>

lemma deck_card_cases:
  "is_deck_card c \<Longrightarrow>
     (cvalue c = ''Joker'' \<and> suit c = ''none'') \<or> (cvalue c \<in> set VALUES \<and> suit c \<in> set SUITS)"
  unfolding is_deck_card_def createDeck_def list_ex_iff
  by (auto simp: new_card_def)

lemma getCardValue_deck: "is_deck_card c \<Longrightarrow> getCardValue c = Some (spec_value c)"
  by (drule deck_card_cases)
     (auto simp: VALUES_def SUITS_def getCardValue_def spec_value_def parseInt_def digit_of_def)

lemma score_step_simps:
  "score_step acc SNull = acc" "score_step acc SUndef = acc" "score_step acc SHole = acc"
  "score_step (Some a) (SCard c) = map_option (\<lambda>v. a + v) (getCardValue c)"
  "score_step None (SCard c) = None"
  by (simp_all add: score_step_def split: option.splits)

lemma foldl_score_step:
  "list_all is_deck_card (cards_of h) \<Longrightarrow>
   foldl score_step (Some a) h = Some (a + sum_list (map spec_value (cards_of h)))"
proof (induction h arbitrary: a)
  case Nil
  then show ?case by simp
next
  case (Cons s h)
  then show ?case
    by (cases s) (simp_all add: score_step_simps getCardValue_deck add.assoc)
qed

lemma createDeck_all_deck_cards: "list_all is_deck_card createDeck"
  unfolding list_all_iff is_deck_card_def list_ex_iff by blast

text \<open>
  Claim C9. \<open>getCardValue\<close> is total over the 54 card identities: on every card whose
  id, suit and rank are those of a card of \<open>createDeck\<close> it returns a number, and that
  number is -1 for a Joker, 0 for the Queen of hearts or diamonds, 1 for an Ace, 10 for
  Jack, King and the Queens of clubs and spades, and the face value for the ranks 2 to
  10 (the table \<open>spec_value\<close>). \<open>calculateScore\<close> of a hand of such cards is the sum of
  these values over the slots that hold a card.
\<close>

theorem getCardValue_calculateScore_correct:
  "(is_deck_card c \<longrightarrow> getCardValue c = Some (spec_value c)) \<and>
   (list_all is_deck_card (cards_of h) \<longrightarrow>
      calculateScore h = Some (sum_list (map spec_value (cards_of h)))) \<and>
   list_all is_deck_card createDeck \<and> length createDeck = 54"
  using foldl_score_step [of h 0]
  by (simp add: getCardValue_deck calculateScore_def createDeck_all_deck_cards)
     (simp add: createDeck_def SUITS_def VALUES_def)

theorem getCardValue_calculateScore_witness:
  "is_deck_card (new_card ''Q_hearts'' ''hearts'' ''Q'') \<and>
   getCardValue (new_card ''Q_hearts'' ''hearts'' ''Q'') = Some 0 \<and>
   list_all is_deck_card
     (cards_of [SCard (new_card ''K_hearts'' ''hearts'' ''K''), SNull, SHole,
                SCard (new_card ''Joker_1'' ''none'' ''Joker''),
                SCard (new_card ''10_clubs'' ''clubs'' ''10'')]) \<and>
   calculateScore [SCard (new_card ''K_hearts'' ''hearts'' ''K''), SNull, SHole,
                   SCard (new_card ''Joker_1'' ''none'' ''Joker''),
                   SCard (new_card ''10_clubs'' ''clubs'' ''10'')] = Some 19"
proof -
  let ?q = "new_card ''Q_hearts'' ''hearts'' ''Q''"
  let ?h = "[SCard (new_card ''K_hearts'' ''hearts'' ''K''), SNull, SHole,
             SCard (new_card ''Joker_1'' ''none'' ''Joker''),
             SCard (new_card ''10_clubs'' ''clubs'' ''10'')]"
  have q: "is_deck_card ?q"
    by (simp add: is_deck_card_def createDeck_def new_card_def SUITS_def VALUES_def)
  have h: "list_all is_deck_card (cards_of ?h)"
    by (simp add: is_deck_card_def createDeck_def new_card_def SUITS_def VALUES_def)
  from getCardValue_calculateScore_correct [of ?q ?h] q h
  have "getCardValue ?q = Some (spec_value ?q)"
    and "calculateScore ?h = Some (sum_list (map spec_value (cards_of ?h)))"
    by blast+
  then show ?thesis
    using q h by (simp add: spec_value_def new_card_def)
qed

section \<open>Drawing\<close>

text \<open>
  Claim C10, as amended. Let \<open>g\<close> be a game that a run of the room reaches from
  \<open>createGameState\<close>. Whatever the status of the game (\<open>st\<close>: lobby, phase1, playing or
  finished), a \<^verbatim>\<open>draw_deck\<close> or \<^verbatim>\<open>draw_discard\<close> from the player at \<open>turnIndex\<close> passes
  the guards when no drawn card is pending and no ability is in progress: the
  guards never read the status. \<^verbatim>\<open>draw_deck\<close> then moves the last card of a non-empty
  deck into \<open>drawnCard\<close>, which changes the game; on an empty deck it only sets
  \<open>drawnCard\<close> to \<^verbatim>\<open>undefined\<close>. \<^verbatim>\<open>draw_discard\<close>, on a non-empty discard pile, puts the top
  discard face down into the chosen slot and hands the displaced slot to
  \<open>handleDiscard\<close>; the game always changes.
\<close>

theorem draw_any_status:
  assumes "run_events createGameState es = Inr g"
      and "nth_opt (playerOrder g) (turnIndex g) = Some sid"
      and "\<not> is_card (drawnCard g)" and "activeAbility g = None"
  shows "(deck g \<noteq> [] \<longrightarrow>
            draw_deck (g\<lparr>status := st\<rparr>) sid =
              Inr (g\<lparr>status := st, drawnCard := SCard (last (deck g)), deck := butlast (deck g)\<rparr>)
            \<and> draw_deck (g\<lparr>status := st\<rparr>) sid \<noteq> Inr (g\<lparr>status := st\<rparr>)) \<and>
         (deck g = [] \<longrightarrow> draw_deck (g\<lparr>status := st\<rparr>) sid = Inr (g\<lparr>status := st, drawnCard := SUndef\<rparr>)) \<and>
         (discardPile g \<noteq> [] \<longrightarrow>
            draw_discard (g\<lparr>status := st\<rparr>) sid i =
              handleDiscard
                (set_hand_slot (g\<lparr>status := st, discardPile := butlast (discardPile g)\<rparr>) sid i
                   (SCard ((last (discardPile g))\<lparr>isFaceUp := False, knownToPlayer := False\<rparr>)))
                (js_get (hand_of g sid) i) sid
            \<and> draw_discard (g\<lparr>status := st\<rparr>) sid i \<noteq> Inr (g\<lparr>status := st\<rparr>))"
proof (intro conjI impI)
  assume d: "deck g \<noteq> []"
  show r: "draw_deck (g\<lparr>status := st\<rparr>) sid =
      Inr (g\<lparr>status := st, drawnCard := SCard (last (deck g)), deck := butlast (deck g)\<rparr>)"
    using assms(2-4) d by (simp add: draw_deck_def)
  show "draw_deck (g\<lparr>status := st\<rparr>) sid \<noteq> Inr (g\<lparr>status := st\<rparr>)"
  proof
    assume "draw_deck (g\<lparr>status := st\<rparr>) sid = Inr (g\<lparr>status := st\<rparr>)"
    with r have "g\<lparr>status := st, drawnCard := SCard (last (deck g)), deck := butlast (deck g)\<rparr>
        = g\<lparr>status := st\<rparr>" by simp
    then have "deck (g\<lparr>status := st, drawnCard := SCard (last (deck g)), deck := butlast (deck g)\<rparr>)
        = deck (g\<lparr>status := st\<rparr>)" by (rule arg_cong)
    then show False using d butlast_neq [of "deck g"] by simp
  qed
next
  assume "deck g = []"
  then show "draw_deck (g\<lparr>status := st\<rparr>) sid = Inr (g\<lparr>status := st, drawnCard := SUndef\<rparr>)"
    using assms(2-4) by (simp add: draw_deck_def)
next
  assume dp: "discardPile g \<noteq> []"
  from assms(2) have m: "sid \<in> set (playerOrder g)" by (rule nth_opt_member)
  with reachable_seated [OF assms(1)] have "players g sid \<noteq> None"
    by (auto simp: seated_def)
  with dp have a: "discardPile g \<noteq> [] \<and> players g sid \<noteq> None" by simp
  show eq: "draw_discard (g\<lparr>status := st\<rparr>) sid i =
      handleDiscard
        (set_hand_slot (g\<lparr>status := st, discardPile := butlast (discardPile g)\<rparr>) sid i
           (SCard ((last (discardPile g))\<lparr>isFaceUp := False, knownToPlayer := False\<rparr>)))
        (js_get (hand_of g sid) i) sid"
    using assms(2-4) a by (auto simp: draw_discard_def Let_def hand_of_def)
  show "draw_discard (g\<lparr>status := st\<rparr>) sid i \<noteq> Inr (g\<lparr>status := st\<rparr>)"
  proof
    assume "draw_discard (g\<lparr>status := st\<rparr>) sid i = Inr (g\<lparr>status := st\<rparr>)"
    with eq have h: "handleDiscard
        (set_hand_slot (g\<lparr>status := st, discardPile := butlast (discardPile g)\<rparr>) sid i
           (SCard ((last (discardPile g))\<lparr>isFaceUp := False, knownToPlayer := False\<rparr>)))
        (js_get (hand_of g sid) i) sid = Inr (g\<lparr>status := st\<rparr>)" by simp
    from a obtain pl where pl: "players g sid = Some pl" by auto
    from reachable_lobby_empty [OF assms(1)] dp have "status g \<noteq> Lobby"
      by (auto simp: lobby_empty_def)
    with reachable_full_table [OF assms(1)] have two: "length (playerOrder g) = 2"
      by (simp add: full_table_def)
    from handleDiscard_changes [OF h] assms(2,4) two pl
    show False by (simp add: set_hand_slot_def)
  qed
qed

text \<open>
  In the first deal Ann can draw during phase1, and could with the status set to
  finished; after she has discarded the 7 of spades Bob can take it from the pile
  in a finished game as well. With no cards dealt a draw leaves \<^verbatim>\<open>undefined\<close>.
\<close>

theorem draw_any_status_witness:
  "run_events createGameState (start_events deckA) = Inr dealtA \<and>
   run_events createGameState [(''a'', JoinGame ''Ann'')] = Inr lobby_joined \<and>
   run_events createGameState
     (start_events deckA @ [(''a'', Phase1Timeout), (''a'', DrawDeck), (''a'', DiscardDrawnCard)])
     = Inr discardedA \<and>
   status dealtA = Phase1 \<and>
   nth_opt (playerOrder dealtA) (turnIndex dealtA) = Some ''a'' \<and>
   \<not> is_card (drawnCard dealtA) \<and> activeAbility dealtA = None \<and> deck dealtA \<noteq> [] \<and>
   draw_deck dealtA ''a''
     = Inr (dealtA\<lparr>drawnCard := SCard (crd ''7'' ''spades''),
                   deck := stockA @ [crd ''9'' ''clubs'']\<rparr>) \<and>
   draw_deck (dealtA\<lparr>status := Finished\<rparr>) ''a'' \<noteq> Inr (dealtA\<lparr>status := Finished\<rparr>) \<and>
   deck lobby_joined = [] \<and>
   draw_deck (lobby_joined\<lparr>status := Phase1\<rparr>) ''a''
     = Inr (lobby_joined\<lparr>status := Phase1, drawnCard := SUndef\<rparr>) \<and>
   nth_opt (playerOrder discardedA) (turnIndex discardedA) = Some ''b'' \<and>
   \<not> is_card (drawnCard discardedA) \<and> activeAbility discardedA = None \<and>
   discardPile discardedA \<noteq> [] \<and>
   draw_discard (discardedA\<lparr>status := Finished\<rparr>) ''b'' 0
     \<noteq> Inr (discardedA\<lparr>status := Finished\<rparr>)"
proof -
  have rA: "run_events createGameState (start_events deckA) = Inr dealtA"
    using reach_dealtA [of "[]"] by simp
  have rD: "run_events createGameState
     (start_events deckA @ [(''a'', Phase1Timeout), (''a'', DrawDeck), (''a'', DiscardDrawnCard)])
     = Inr discardedA"
    unfolding reach_dealtA reach_playingA reach_discardedA by simp
  have rL: "run_events createGameState [(''a'', JoinGame ''Ann'')] = Inr lobby_joined"
    by (simp add: lobby_joined_def createGameState_def join_game_def)
  have h: "nth_opt (playerOrder dealtA) (turnIndex dealtA) = Some ''a''"
    "\<not> is_card (drawnCard dealtA)" "activeAbility dealtA = None" "status dealtA = Phase1"
    "deck dealtA \<noteq> []"
    by (simp_all add: dealtA_def nth_opt_def)
  have l: "nth_opt (playerOrder lobby_joined) (turnIndex lobby_joined) = Some ''a''"
    "\<not> is_card (drawnCard lobby_joined)" "activeAbility lobby_joined = None"
    "deck lobby_joined = []"
    by (simp_all add: lobby_joined_def createGameState_def nth_opt_def)
  have d: "nth_opt (playerOrder discardedA) (turnIndex discardedA) = Some ''b''"
    "\<not> is_card (drawnCard discardedA)" "activeAbility discardedA = None"
    "discardPile discardedA \<noteq> []"
    by (simp_all add: discardedA_def playingA_def dealtA_def nth_opt_def)
  have 0: "draw_deck dealtA ''a''
     = Inr (dealtA\<lparr>drawnCard := SCard (crd ''7'' ''spades''),
                   deck := stockA @ [crd ''9'' ''clubs'']\<rparr>)"
    using draw_any_status [OF rA h(1-3), of Phase1 0] h(5)
    by (simp add: dealtA_def butlast_append)
  have 1: "draw_deck (dealtA\<lparr>status := Finished\<rparr>) ''a'' \<noteq> Inr (dealtA\<lparr>status := Finished\<rparr>)"
    using draw_any_status [OF rA h(1-3), of Finished 0] h(5) by blast
  have 2: "draw_deck (lobby_joined\<lparr>status := Phase1\<rparr>) ''a''
     = Inr (lobby_joined\<lparr>status := Phase1, drawnCard := SUndef\<rparr>)"
    using draw_any_status [OF rL l(1-3), of Phase1 0] l(4) by blast
  have 3: "draw_discard (discardedA\<lparr>status := Finished\<rparr>) ''b'' 0
     \<noteq> Inr (discardedA\<lparr>status := Finished\<rparr>)"
    using draw_any_status [OF rD d(1-3), of Finished 0] d(4) by blast
  show ?thesis
    using rA rL rD h l(4) d 0 1 2 3 by blast
qed

text \<open>
  Claim C10 as stated fails on an empty deck: after Ann has joined and drawn once
  (which leaves \<open>drawnCard\<close> \<^verbatim>\<open>undefined\<close>), her next \<^verbatim>\<open>draw_deck\<close> passes the guards and
  changes nothing.
\<close>

theorem draw_deck_empty_counterexample:
  "run_events createGameState [(''a'', JoinGame ''Ann''), (''a'', DrawDeck)] = Inr lobby_drawn \<and>
   nth_opt (playerOrder lobby_drawn) (turnIndex lobby_drawn) = Some ''a'' \<and>
   \<not> is_card (drawnCard lobby_drawn) \<and> activeAbility lobby_drawn = None \<and>
   draw_deck lobby_drawn ''a'' = Inr lobby_drawn"
  by (simp add: lobby_drawn_def lobby_joined_def createGameState_def join_game_def draw_deck_def
        nth_opt_def)

section \<open>Draw and discard actions while an ability is in progress\<close>

text \<open>
  Claim C4 (the code departs from it). While \<open>activeAbility\<close> is set, \<^verbatim>\<open>draw_deck\<close> and
  \<^verbatim>\<open>draw_discard\<close> from any player are rejected and leave the game as it is; but
  \<^verbatim>\<open>swap_drawn_card\<close> and \<^verbatim>\<open>discard_drawn_card\<close> never read \<open>activeAbility\<close>: from the player
  at \<open>turnIndex\<close> who holds a drawn card they are carried out and change the game.
\<close>

theorem draw_actions_during_ability:
  assumes "activeAbility g \<noteq> None"
  shows "draw_deck g sid = Inr g \<and> draw_discard g sid i = Inr g \<and>
         (nth_opt (playerOrder g) (turnIndex g) = Some sid \<and> is_card (drawnCard g) \<longrightarrow>
            swap_drawn_card g sid i \<noteq> Inr g \<and> discard_drawn_card g sid \<noteq> Inr g)"
proof (intro conjI impI)
  show "draw_deck g sid = Inr g" using assms by (simp add: draw_deck_def)
  show "draw_discard g sid i = Inr g" using assms by (simp add: draw_discard_def)
next
  assume a: "nth_opt (playerOrder g) (turnIndex g) = Some sid \<and> is_card (drawnCard g)"
  then obtain d where d: "drawnCard g = SCard d" by (auto dest: is_card_cases)
  show "swap_drawn_card g sid i \<noteq> Inr g"
  proof
    assume eq: "swap_drawn_card g sid i = Inr g"
    then obtain pl where "players g sid = Some pl"
      using a d by (auto simp: swap_drawn_card_def split: option.splits)
    with eq a d have "handleDiscard
        ((set_hand_slot g sid i (SCard (d\<lparr>isFaceUp := False, knownToPlayer := False\<rparr>)))\<lparr>drawnCard := SNull\<rparr>)
        (js_get (hand pl) i) sid = Inr g"
      by (simp add: swap_drawn_card_def Let_def)
    from handleDiscard_drawn [OF this] d show False by simp
  qed
  show "discard_drawn_card g sid \<noteq> Inr g"
  proof
    assume "discard_drawn_card g sid = Inr g"
    with a d have "handleDiscard (g\<lparr>drawnCard := SNull\<rparr>) (SCard d) sid = Inr g"
      by (simp add: discard_drawn_card_def)
    from handleDiscard_drawn [OF this] d show False by simp
  qed
qed

text \<open>
  Such a game is reached from \<open>createGameState\<close> (\<open>eventsB\<close>): Bob has drawn, then Ann
  stacks her 8 on the discarded 8 and inherits its ability. Bob's swap is then
  carried out and passes the turn to Ann while her ability is still pending.
\<close>

theorem draw_actions_during_ability_witness:
  "run_events createGameState eventsB = Inr pendingB \<and>
   activeAbility pendingB \<noteq> None \<and>
   nth_opt (playerOrder pendingB) (turnIndex pendingB) = Some ''b'' \<and>
   is_card (drawnCard pendingB) \<and>
   draw_deck pendingB ''b'' = Inr pendingB \<and>
   swap_drawn_card pendingB ''b'' 1 \<noteq> Inr pendingB \<and>
   discard_drawn_card pendingB ''b'' \<noteq> Inr pendingB \<and>
   swap_drawn_card pendingB ''b'' 1 = Inr swappedB \<and>
   turnIndex swappedB \<noteq> turnIndex pendingB \<and>
   activeAbility swappedB = activeAbility pendingB"
proof -
  have h: "activeAbility pendingB \<noteq> None"
    "nth_opt (playerOrder pendingB) (turnIndex pendingB) = Some ''b''"
    "is_card (drawnCard pendingB)"
    by (simp_all add: pendingB_def nth_opt_def)
  have s: "turnIndex swappedB \<noteq> turnIndex pendingB" "activeAbility swappedB = activeAbility pendingB"
    by (simp_all add: swappedB_def pendingB_def)
  show ?thesis
    using draw_actions_during_ability [OF h(1), of "''b''" 1] h s
      reach_pendingB [of "[]"] swap_pendingB
    by simp
qed


section \<open>Exceptions\<close>

text \<open>
  Claim C3 (the code departs from it). \<^verbatim>\<open>execute_stack\<close> from the stack caller with a
  \<^verbatim>\<open>targetPlayerId\<close> that is no key of \<^verbatim>\<open>players\<close> throws a \<open>TypeError\<close>, and so does
  \<^verbatim>\<open>player_ready\<close> from a socket that is no registered player. An out-of-range
  \<^verbatim>\<open>handIndex\<close> alone does not throw: the slot reads as \<^verbatim>\<open>undefined\<close> and the mismatch
  branch runs.
\<close>

theorem handlers_throw:
  "(active (stackWindow g) \<and> caller (stackWindow g) = Some sid \<and> players g tid = None \<longrightarrow>
      execute_stack g sid tid i k = Inl TypeError) \<and>
   (players g sid = None \<longrightarrow> player_ready g sid d = Inl TypeError) \<and>
   (active (stackWindow g) \<and> caller (stackWindow g) = Some sid \<and> players g tid = Some tp \<and>
    players g sid \<noteq> None \<and> length (hand tp) \<le> i \<longrightarrow>
      execute_stack g sid tid i k =
        Inr ((stack_mismatch g sid)\<lparr>stackWindow := \<lparr>active = False, caller = None, targetValue = None\<rparr>\<rparr>))"
proof (intro conjI impI)
  assume "active (stackWindow g) \<and> caller (stackWindow g) = Some sid \<and> players g tid = None"
  then show "execute_stack g sid tid i k = Inl TypeError"
    by (simp add: execute_stack_def)
next
  assume "players g sid = None"
  then show "player_ready g sid d = Inl TypeError"
    by (simp add: player_ready_def)
next
  assume a: "active (stackWindow g) \<and> caller (stackWindow g) = Some sid \<and> players g tid = Some tp \<and>
    players g sid \<noteq> None \<and> length (hand tp) \<le> i"
  then obtain cp where "players g sid = Some cp" by auto
  with a show "execute_stack g sid tid i k =
        Inr ((stack_mismatch g sid)\<lparr>stackWindow := \<lparr>active = False, caller = None, targetValue = None\<rparr>\<rparr>)"
    by (simp add: execute_stack_def js_get_def stack_finish_def)
qed

text \<open>
  Both exceptions are reached from \<open>createGameState\<close>: a third socket joins the room of
  Ann and Bob and sends \<^verbatim>\<open>player_ready\<close>; Bob calls a stack and names a target that
  is no player.
\<close>

theorem handlers_throw_witness:
  "run_events createGameState
     [(''a'', JoinGame ''Ann''), (''b'', JoinGame ''Bob''), (''c'', JoinGame ''Cat''),
      (''c'', PlayerReady deckA)] = Inl TypeError \<and>
   run_events createGameState
     (start_events deckA @ [(''a'', Phase1Timeout), (''a'', DrawDeck), (''a'', DiscardDrawnCard),
        (''b'', CallStack), (''b'', ExecuteStack ''nobody'' 0 None)]) = Inl TypeError \<and>
   players lobby_two ''c'' = None \<and> player_ready lobby_two ''c'' deckA = Inl TypeError \<and>
   active (stackWindow calledA) \<and> caller (stackWindow calledA) = Some ''b'' \<and>
   players calledA ''nobody'' = None \<and>
   execute_stack calledA ''b'' ''nobody'' 0 None = Inl TypeError \<and>
   players calledA ''a'' = Some (ann annA) \<and> players calledA ''b'' \<noteq> None \<and>
   length (hand (ann annA)) \<le> 7 \<and>
   execute_stack calledA ''b'' ''a'' 7 None =
     Inr ((stack_mismatch calledA ''b'')\<lparr>stackWindow := \<lparr>active = False, caller = None, targetValue = None\<rparr>\<rparr>)"
proof -
  have c: "players lobby_two ''c'' = None"
    by (simp add: lobby_two_def)
  have s: "active (stackWindow calledA)" "caller (stackWindow calledA) = Some ''b''"
    "players calledA ''nobody'' = None" "players calledA ''a'' = Some (ann annA)"
    "players calledA ''b'' \<noteq> None" "length (hand (ann annA)) \<le> 7"
    by (simp_all add: calledA_def discardedA_def playingA_def dealtA_def ann_def annA_def)
  have 1: "player_ready lobby_two ''c'' deckA = Inl TypeError"
    using handlers_throw [of lobby_two "''c''" "''c''" 0 None deckA "ann annA"] c by simp
  have 2: "execute_stack calledA ''b'' ''nobody'' 0 None = Inl TypeError"
    using handlers_throw [of calledA "''b''" "''nobody''" 0 None deckA "ann annA"] s(1-3) by simp
  have 3: "execute_stack calledA ''b'' ''a'' 7 None =
     Inr ((stack_mismatch calledA ''b'')\<lparr>stackWindow := \<lparr>active = False, caller = None, targetValue = None\<rparr>\<rparr>)"
    using handlers_throw [of calledA "''b''" "''a''" 7 None deckA "ann annA"] s(1,2,4,5,6) by simp
  have r1: "run_events createGameState
     [(''a'', JoinGame ''Ann''), (''b'', JoinGame ''Bob''), (''c'', JoinGame ''Cat''),
      (''c'', PlayerReady deckA)] = Inl TypeError"
    unfolding reach_lobby_two by (simp add: 1)
  have r2: "run_events createGameState
     (start_events deckA @ [(''a'', Phase1Timeout), (''a'', DrawDeck), (''a'', DiscardDrawnCard),
        (''b'', CallStack), (''b'', ExecuteStack ''nobody'' 0 None)]) = Inl TypeError"
    unfolding reach_dealtA reach_playingA reach_discardedA reach_calledA by (simp add: 2)
  show ?thesis
    using c s 1 2 3 r1 r2 by simp
qed


section \<open>A failed stack\<close>

text \<open>
  Claim C8, as amended. When the stack caller executes a stack and the chosen slot
  holds no card of the window's \<open>targetValue\<close>, the handler returns normally; no
  card leaves the target's hand; the discard pile is unchanged; the stack window
  closes; and, if the deck is not empty, its last card is appended to the caller's
  hand face down and not privately known (the hand may then exceed four slots).
  If the deck is empty nothing else changes: the caller's hand does not grow.
\<close>

theorem stack_mismatch_penalty:
  assumes "active (stackWindow g)" and "caller (stackWindow g) = Some sid"
      and "players g tid = Some tp" and "players g sid = Some cp"
      and "case js_get (hand tp) i of
             SCard c \<Rightarrow> targetValue (stackWindow g) \<noteq> Some (cvalue c) | _ \<Rightarrow> True"
  shows "\<exists>g'. execute_stack g sid tid i k = Inr g' \<and>
           discardPile g' = discardPile g \<and>
           stackWindow g' = \<lparr>active = False, caller = None, targetValue = None\<rparr> \<and>
           take (length (hand tp)) (hand_of g' tid) = hand tp \<and>
           (tid \<noteq> sid \<longrightarrow> hand_of g' tid = hand tp) \<and>
           (deck g \<noteq> [] \<longrightarrow>
              deck g' = butlast (deck g) \<and>
              hand_of g' sid =
                hand cp @ [SCard ((last (deck g))\<lparr>isFaceUp := False, knownToPlayer := False\<rparr>)]) \<and>
           (deck g = [] \<longrightarrow>
              g' = g\<lparr>stackWindow := \<lparr>active = False, caller = None, targetValue = None\<rparr>\<rparr>)"
proof -
  let ?g' = "(stack_mismatch g sid)\<lparr>stackWindow := \<lparr>active = False, caller = None, targetValue = None\<rparr>\<rparr>"
  have e: "execute_stack g sid tid i k = Inr ?g'"
    using assms by (simp add: execute_stack_def stack_finish_def split: slot.splits)
  have "discardPile ?g' = discardPile g"
    using assms(4) by (simp add: stack_mismatch_def)
  moreover have "take (length (hand tp)) (hand_of ?g' tid) = hand tp"
    using assms(3,4) by (cases "tid = sid") (simp_all add: stack_mismatch_def hand_of_def)
  moreover have "tid \<noteq> sid \<longrightarrow> hand_of ?g' tid = hand tp"
    using assms(3,4) by (simp add: stack_mismatch_def hand_of_def)
  moreover have "deck g \<noteq> [] \<longrightarrow>
              deck ?g' = butlast (deck g) \<and>
              hand_of ?g' sid =
                hand cp @ [SCard ((last (deck g))\<lparr>isFaceUp := False, knownToPlayer := False\<rparr>)]"
    using assms(4) by (simp add: stack_mismatch_def hand_of_def)
  moreover have "deck g = [] \<longrightarrow>
              ?g' = g\<lparr>stackWindow := \<lparr>active = False, caller = None, targetValue = None\<rparr>\<rparr>"
    by (simp add: stack_mismatch_def)
  ultimately show ?thesis using e by simp
qed

theorem stack_mismatch_penalty_witness:
  "active (stackWindow calledA) \<and> caller (stackWindow calledA) = Some ''b'' \<and>
   players calledA ''a'' = Some (ann annA) \<and> players calledA ''b'' = Some (bob bobA) \<and>
   js_get (hand (ann annA)) 0 = SCard (crd ''A'' ''spades'') \<and>
   targetValue (stackWindow calledA) \<noteq> Some (cvalue (crd ''A'' ''spades'')) \<and>
   deck calledA \<noteq> [] \<and>
   (\<exists>g'. execute_stack calledA ''b'' ''a'' 0 None = Inr g' \<and>
      discardPile g' = discardPile calledA \<and> \<not> active (stackWindow g') \<and>
      hand_of g' ''a'' = annA \<and>
      hand_of g' ''b'' = bobA @ [SCard (crd ''9'' ''clubs'')] \<and> deck g' = stockA)"
proof -
  have s: "active (stackWindow calledA)" "caller (stackWindow calledA) = Some ''b''"
    "players calledA ''a'' = Some (ann annA)" "players calledA ''b'' = Some (bob bobA)"
    "js_get (hand (ann annA)) 0 = SCard (crd ''A'' ''spades'')"
    "targetValue (stackWindow calledA) \<noteq> Some (cvalue (crd ''A'' ''spades''))"
    "deck calledA \<noteq> []"
    by (simp_all add: calledA_def discardedA_def playingA_def dealtA_def ann_def annA_def
          js_get_def crd_def new_card_def)
  have m: "case js_get (hand (ann annA)) 0 of
             SCard c \<Rightarrow> targetValue (stackWindow calledA) \<noteq> Some (cvalue c) | _ \<Rightarrow> True"
    using s(5,6) by simp
  from stack_mismatch_penalty [OF s(1-4) m, of None]
  obtain g' where g': "execute_stack calledA ''b'' ''a'' 0 None = Inr g'"
      "discardPile g' = discardPile calledA"
      "stackWindow g' = \<lparr>active = False, caller = None, targetValue = None\<rparr>"
      "hand_of g' ''a'' = hand (ann annA)"
      "deck g' = butlast (deck calledA)"
      "hand_of g' ''b'' = hand (bob bobA) @
         [SCard ((last (deck calledA))\<lparr>isFaceUp := False, knownToPlayer := False\<rparr>)]"
    using s(7) by blast
  have a: "hand_of g' ''a'' = annA"
    using g'(4) by (simp add: ann_def)
  have "hand_of g' ''b'' = bobA @ [SCard (crd ''9'' ''clubs'')]" "deck g' = stockA"
    using g'(5,6)
    by (simp_all add: calledA_def discardedA_def playingA_def dealtA_def bob_def crd_def
          new_card_def)
  with g' a s show ?thesis by simp
qed

text \<open>
  Claim C8 as stated fails on an empty deck (\<^verbatim>\<open>if (game.deck.length > 0)\<close>): Bob's
  failed stack closes the window and leaves his hand at four cards.
\<close>

theorem stack_mismatch_empty_deck_counterexample:
  "active (stackWindow dryA) \<and> caller (stackWindow dryA) = Some ''b'' \<and>
   get_hand_slot dryA ''a'' 0 = SCard (crd ''A'' ''spades'') \<and>
   targetValue (stackWindow dryA) = Some ''7'' \<and> cvalue (crd ''A'' ''spades'') = ''A'' \<and>
   execute_stack dryA ''b'' ''a'' 0 None = Inr (dryA\<lparr>stackWindow := no_window\<rparr>) \<and>
   hand_of (dryA\<lparr>stackWindow := no_window\<rparr>) ''b'' = hand_of dryA ''b'' \<and>
   length (hand_of dryA ''b'') = 4"
  by (simp add: dryA_def calledA_def discardedA_def playingA_def dealtA_def ann_def annA_def
        bob_def bobA_def js_get_def crd_def new_card_def execute_stack_def stack_finish_def
        stack_mismatch_def hand_of_def get_hand_slot_def no_window_def)


section \<open>The end of the game by attrition\<close>

text \<open>
  Claim C7, as amended. When the player at \<open>turnIndex\<close> discards the drawn card, the
  card has no ability, and the player's hand is entirely face up or empty: if the
  player's \<open>isFinalTurn\<close> is not yet set, it becomes true and the game goes directly
  to scoring (the status becomes \<^verbatim>\<open>finished\<close>, every hand of a seated player is turned
  face up and its score computed); if the flag is already set, the condition does
  not trigger again and the turn advances. (All seated players are registered, as
  \<^verbatim>\<open>join_game\<close> makes them.)
\<close>

theorem attrition_ends_game:
  assumes "nth_opt (playerOrder g) (turnIndex g) = Some sid"
      and "drawnCard g = SCard d" and "\<not> is_ability (cvalue d)"
      and "players g sid = Some pl" and "allFaceUp (hand pl) = Inr True"
      and "list_all (\<lambda>p. players g p \<noteq> None) (playerOrder g)"
  shows "(\<not> isFinalTurn pl \<longrightarrow>
            discard_drawn_card g sid =
              Inr (g\<lparr>status := Finished, drawnCard := SNull,
                     discardPile := discardPile g @ [d\<lparr>isFaceUp := True\<rparr>],
                     players := (\<lambda>p. if p \<in> set (playerOrder g)
                        then map_option reveal_player (((players g)(sid \<mapsto> pl\<lparr>isFinalTurn := True\<rparr>)) p)
                        else ((players g)(sid \<mapsto> pl\<lparr>isFinalTurn := True\<rparr>)) p)\<rparr>)) \<and>
         (isFinalTurn pl \<longrightarrow>
            discard_drawn_card g sid =
              advanceTurn (g\<lparr>drawnCard := SNull,
                            discardPile := discardPile g @ [d\<lparr>isFaceUp := True\<rparr>]\<rparr>))"
proof (intro conjI impI)
  let ?g1 = "g\<lparr>drawnCard := SNull, discardPile := discardPile g @ [d\<lparr>isFaceUp := True\<rparr>]\<rparr>"
  have d: "discard_drawn_card g sid = checkEndGameAndAdvance ?g1"
    using assms(1-3) by (simp add: discard_drawn_card_def handleDiscard_def)
  {
    assume "isFinalTurn pl"
    then show "discard_drawn_card g sid = advanceTurn ?g1"
      using d assms(1,4,5) by (simp add: checkEndGameAndAdvance_def)
  }
  assume n: "\<not> isFinalTurn pl"
  let ?ps = "(players g)(sid \<mapsto> pl\<lparr>isFinalTurn := True\<rparr>)"
  have "list_all (\<lambda>p. ?ps p \<noteq> None) (playerOrder g)"
    using assms(6) by (auto simp: list_all_iff)
  then have sp: "score_players (playerOrder g) ?ps =
      Inr (\<lambda>p. if p \<in> set (playerOrder g) then map_option reveal_player (?ps p) else ?ps p)"
    by (rule score_players_total)
  have "promptEndGame (?g1\<lparr>players := ?ps\<rparr>) =
      Inr (?g1\<lparr>players := ?ps\<rparr>\<lparr>status := Finished,
            players := (\<lambda>p. if p \<in> set (playerOrder g) then map_option reveal_player (?ps p) else ?ps p)\<rparr>)"
    by (simp add: promptEndGame_def sp del: fun_upd_apply)
  then show "discard_drawn_card g sid =
              Inr (g\<lparr>status := Finished, drawnCard := SNull,
                     discardPile := discardPile g @ [d\<lparr>isFaceUp := True\<rparr>],
                     players := (\<lambda>p. if p \<in> set (playerOrder g)
                        then map_option reveal_player (?ps p) else ?ps p)\<rparr>)"
    using d n assms(1,4,5) by (simp add: checkEndGameAndAdvance_def)
qed

theorem attrition_ends_game_witness:
  "nth_opt (playerOrder attritionA) (turnIndex attritionA) = Some ''a'' \<and>
   drawnCard attritionA = SCard (crd ''7'' ''spades'') \<and>
   \<not> is_ability (cvalue (crd ''7'' ''spades'')) \<and>
   players attritionA ''a'' = Some (ann [SNull, SNull, SNull, SNull]) \<and>
   allFaceUp (hand (ann [SNull, SNull, SNull, SNull])) = Inr True \<and>
   list_all (\<lambda>p. players attritionA p \<noteq> None) (playerOrder attritionA) \<and>
   \<not> isFinalTurn (ann [SNull, SNull, SNull, SNull]) \<and>
   (\<exists>g'. discard_drawn_card attritionA ''a'' = Inr g' \<and> status g' = Finished) \<and>
   players flaggedA ''a'' = Some ((ann [SNull, SNull, SNull, SNull])\<lparr>isFinalTurn := True\<rparr>) \<and>
   discard_drawn_card flaggedA ''a'' =
     Inr (flaggedA\<lparr>turnIndex := 1, drawnCard := SNull,
            discardPile := discardPile flaggedA @ [faceUp (crd ''7'' ''spades'')]\<rparr>)"
proof -
  let ?pl = "ann [SNull, SNull, SNull, SNull]"
  have h: "nth_opt (playerOrder attritionA) (turnIndex attritionA) = Some ''a''"
    "drawnCard attritionA = SCard (crd ''7'' ''spades'')"
    "\<not> is_ability (cvalue (crd ''7'' ''spades''))"
    "players attritionA ''a'' = Some ?pl"
    "allFaceUp (hand ?pl) = Inr True"
    "list_all (\<lambda>p. players attritionA p \<noteq> None) (playerOrder attritionA)"
    "\<not> isFinalTurn ?pl"
    by (simp_all add: attritionA_def playingA_def dealtA_def nth_opt_def is_ability_def crd_def
          new_card_def ann_def)
  have f: "nth_opt (playerOrder flaggedA) (turnIndex flaggedA) = Some ''a''"
    "drawnCard flaggedA = SCard (crd ''7'' ''spades'')"
    "players flaggedA ''a'' = Some (?pl\<lparr>isFinalTurn := True\<rparr>)"
    "allFaceUp (hand (?pl\<lparr>isFinalTurn := True\<rparr>)) = Inr True"
    "list_all (\<lambda>p. players flaggedA p \<noteq> None) (playerOrder flaggedA)"
    "isFinalTurn (?pl\<lparr>isFinalTurn := True\<rparr>)"
    by (simp_all add: flaggedA_def attritionA_def playingA_def dealtA_def nth_opt_def ann_def)
  have 1: "\<exists>g'. discard_drawn_card attritionA ''a'' = Inr g' \<and> status g' = Finished"
    using attrition_ends_game [OF h(1-6)] h(7) by simp
  have "discard_drawn_card flaggedA ''a'' =
      advanceTurn (flaggedA\<lparr>drawnCard := SNull,
         discardPile := discardPile flaggedA @ [(crd ''7'' ''spades'')\<lparr>isFaceUp := True\<rparr>]\<rparr>)"
    using attrition_ends_game [OF f(1,2) h(3) f(3-5)] f(6) by simp
  then have 2: "discard_drawn_card flaggedA ''a'' =
     Inr (flaggedA\<lparr>turnIndex := 1, drawnCard := SNull,
            discardPile := discardPile flaggedA @ [faceUp (crd ''7'' ''spades'')]\<rparr>)"
    by (simp add: advanceTurn_def flaggedA_def attritionA_def playingA_def dealtA_def nth_opt_def
          faceUp_def)
  show ?thesis
    using h f(3) 1 2 by simp
qed


text \<open>
  Claim C7 as stated fails: play does not continue. Ann, her hand empty, discards
  the 7 of spades she drew; the game is finished at once and scored.
\<close>

theorem attrition_finishes_counterexample:
  "status attritionA = Playing \<and> activeAbility attritionA = None \<and>
   nth_opt (playerOrder attritionA) (turnIndex attritionA) = Some ''a'' \<and>
   hand_of attritionA ''a'' = [SNull, SNull, SNull, SNull] \<and>
   discard_drawn_card attritionA ''a'' = Inr finishedA \<and>
   status finishedA = Finished \<and>
   map_option score (players finishedA ''b'') = Some (Some 31)"
  by (simp add: attritionA_def finishedA_def playingA_def dealtA_def nth_opt_def hand_of_def
        ann_def bob_def bobA_def discard_drawn_card_def handleDiscard_def is_ability_def
        crd_def new_card_def faceUp_def checkEndGameAndAdvance_def promptEndGame_def
        calculateScore_def score_step_def getCardValue_def parseInt_def digit_of_def)



section \<open>A successful stack\<close>




section \<open>The King's swap\<close>

text \<open>
  Claim C6 (the code departs from it). When the holder of a King ability names one
  of their own slots and a slot of the opponent (both within the hands), the
  handler exchanges the contents of the two slots and then runs the end-of-turn
  check. The cards travel with all their fields as they are: after the handler
  each of the two hands is the old hand with the one slot replaced by the other
  player's old slot, or that hand turned face up when the move ends the game.
  Nothing hides the swapped cards: \<open>isFaceUp\<close>, \<open>knownToPlayer\<close> and \<open>knownToOpponent\<close> are
  never cleared.
\<close>

theorem king_swap_keeps_flags:
  assumes "activeAbility g = Some ab" and "ability_player ab = sid" and "ability_type ab = ''K''"
      and "players g sid = Some p1" and "players g (opponentId td) = Some p2"
      and "opponentId td \<noteq> sid"
      and "myIndex td < length (hand p1)" and "oppIndex td < length (hand p2)"
      and "play_ability_target g sid ''K'' td = Inr g'"
  shows "(hand_of g' sid = (hand p1)[myIndex td := js_get (hand p2) (oppIndex td)] \<or>
          hand_of g' sid = map reveal_slot ((hand p1)[myIndex td := js_get (hand p2) (oppIndex td)])) \<and>
         (hand_of g' (opponentId td) = (hand p2)[oppIndex td := js_get (hand p1) (myIndex td)] \<or>
          hand_of g' (opponentId td) =
            map reveal_slot ((hand p2)[oppIndex td := js_get (hand p1) (myIndex td)]))"
proof -
  let ?s = "swap_slots g sid (myIndex td) (opponentId td) (oppIndex td)"
  have "play_ability_target g sid ''K'' td = ability_done ?s"
    using assms(1-5) by (simp add: play_ability_target_def)
  with assms(9) have c: "checkEndGameAndAdvance (?s\<lparr>activeAbility := None\<rparr>) = Inr g'"
    by (simp add: ability_done_def)
  have h: "hand_of (?s\<lparr>activeAbility := None\<rparr>) p = hand_of ?s p" for p
    by (simp add: hand_of_def)
  show ?thesis
    using checkEndGameAndAdvance_hands [OF c, of sid]
      checkEndGameAndAdvance_hands [OF c, of "opponentId td"]
      swap_slots_hands [OF assms(4,5,6,7,8)]
    by (simp add: h)
qed

text \<open>
  During phase1 Ann knows her third card, the 3 of spades. She draws and discards
  a King and swaps that card with Bob's first one: the 3 of spades arrives in Bob's
  hand with \<open>knownToPlayer\<close> still set. The timer clears the flag by position (slots 2
  and 3) only, so once play has begun Bob's snapshot shows him the card.
\<close>

theorem king_swap_keeps_flags_witness:
  "run_events createGameState eventsC = Inr swappedC \<and>
   activeAbility kingC = Some \<lparr>ability_type = ''K'', ability_player = ''a'', jackPhase = None\<rparr> \<and>
   get_hand_slot kingC ''a'' 2 = SCard (known (crd ''3'' ''spades'')) \<and>
   get_hand_slot kingC ''b'' 0 = SCard (crd ''5'' ''spades'') \<and>
   play_ability_target kingC ''a'' ''K'' \<lparr>myIndex = 2, opponentId = ''b'', oppIndex = 0\<rparr> = Inr midC \<and>
   hand_of midC ''a'' =
     [SCard (crd ''A'' ''spades''), SCard (crd ''2'' ''spades''), SCard (crd ''5'' ''spades''),
      SCard (known (crd ''4'' ''spades''))] \<and>
   hand_of midC ''b'' =
     [SCard (known (crd ''3'' ''spades'')), SCard (crd ''7'' ''spades''),
      SCard (known (crd ''9'' ''spades'')), SCard (known (crd ''10'' ''spades''))] \<and>
   knownToPlayer (known (crd ''3'' ''spades'')) \<and>
   status swappedC = Playing \<and>
   get_hand_slot swappedC ''b'' 0 = SCard (known (crd ''3'' ''spades'')) \<and>
   get_hand_slot (sanitizeGameState swappedC ''b'') ''b'' 0 = SCard (known (crd ''3'' ''spades''))"
proof -
  let ?td = "\<lparr>myIndex = 2, opponentId = ''b'', oppIndex = 0\<rparr>"
  let ?p1 = "ann [SCard (crd ''A'' ''spades''), SCard (crd ''2'' ''spades''),
              SCard (known (crd ''3'' ''spades'')), SCard (known (crd ''4'' ''spades''))]"
  let ?p2 = "bob [SCard (crd ''5'' ''spades''), SCard (crd ''7'' ''spades''),
              SCard (known (crd ''9'' ''spades'')), SCard (known (crd ''10'' ''spades''))]"
  have h: "activeAbility kingC = Some \<lparr>ability_type = ''K'', ability_player = ''a'', jackPhase = None\<rparr>"
    "ability_player \<lparr>ability_type = ''K'', ability_player = ''a'', jackPhase = None\<rparr> = ''a''"
    "ability_type \<lparr>ability_type = ''K'', ability_player = ''a'', jackPhase = None\<rparr> = ''K''"
    "players kingC ''a'' = Some ?p1" "players kingC (opponentId ?td) = Some ?p2"
    "opponentId ?td \<noteq> ''a''" "myIndex ?td < length (hand ?p1)" "oppIndex ?td < length (hand ?p2)"
    by (simp_all add: kingC_def ann_def bob_def)
  note K = king_swap_keeps_flags [OF h swap_kingC]
  have a: "hand_of midC ''a'' =
     [SCard (crd ''A'' ''spades''), SCard (crd ''2'' ''spades''), SCard (crd ''5'' ''spades''),
      SCard (known (crd ''4'' ''spades''))]"
    by (simp add: midC_def kingC_def hand_of_def ann_def)
  have b: "hand_of midC ''b'' =
     [SCard (known (crd ''3'' ''spades'')), SCard (crd ''7'' ''spades''),
      SCard (known (crd ''9'' ''spades'')), SCard (known (crd ''10'' ''spades''))]"
    by (simp add: midC_def kingC_def hand_of_def bob_def)
  have s: "get_hand_slot kingC ''a'' 2 = SCard (known (crd ''3'' ''spades''))"
    "get_hand_slot kingC ''b'' 0 = SCard (crd ''5'' ''spades'')"
    "knownToPlayer (known (crd ''3'' ''spades''))"
    "status swappedC = Playing"
    "get_hand_slot swappedC ''b'' 0 = SCard (known (crd ''3'' ''spades''))"
    by (simp_all add: kingC_def swappedC_def get_hand_slot_def js_get_def ann_def bob_def known_def)
  have v: "get_hand_slot (sanitizeGameState swappedC ''b'') ''b'' 0 = SCard (known (crd ''3'' ''spades''))"
    by (simp add: sanitizeGameState_def swappedC_def kingC_def get_hand_slot_def js_get_def
          bob_def redact_hand_def redact_slot_def known_def crd_def new_card_def)
  have k: "hand_of midC ''b'' = (hand ?p2)[0 := js_get (hand ?p1) 2] \<or>
           hand_of midC ''b'' = map reveal_slot ((hand ?p2)[0 := js_get (hand ?p1) 2])"
    using K by simp
  show ?thesis
    using k reach_swappedC swap_kingC h(1) a b s v by simp
qed


section \<open>The snapshot a viewer is sent\<close>

text \<open>
  Claim C1. For every game \<open>g\<close> that a run of the room reaches from \<open>createGameState\<close>
  and every viewer \<open>v\<close>: in the snapshot \<open>sanitizeGameState g v\<close> a face-down card in
  slot \<open>i\<close> of a player's hand has its rank and suit replaced by \<^verbatim>\<open>'?'\<close> and its id by
  \<^verbatim>\<open>'hidden_'\<close> followed by \<open>i\<close>, unless the status is finished, or the status is phase1
  and the viewer owns the hand and \<open>i\<close> is 2 or 3, or the card is \<open>knownToPlayer\<close> and
  the viewer owns the hand, or the card is \<open>knownToOpponent\<close> and the viewer does not
  own the hand; then it is sent as it is, and so is every face-up card. While the
  status is not finished the drawn card is replaced in the same way (id
  \<^verbatim>\<open>'hidden_drawn'\<close>) for every viewer who is not the player at \<open>turnIndex\<close>. (The
  redaction runs under \<^verbatim>\<open>isPlaying\<close> only; a game in the lobby holds no card.)
\<close>

theorem sanitize_hides_cards:
  assumes "run_events createGameState es = Inr g"
  shows "(players g p = Some pl \<and> i < length (hand pl) \<and> hand pl ! i = SCard c \<and> \<not> isFaceUp c \<longrightarrow>
            get_hand_slot (sanitizeGameState g v) p i =
              (if status g = Finished \<or> (status g = Phase1 \<and> p = v \<and> (i = 2 \<or> i = 3))
                  \<or> (knownToPlayer c \<and> p = v) \<or> (knownToOpponent c \<and> p \<noteq> v)
               then SCard c
               else SCard (c\<lparr>cvalue := ''?'', suit := ''?'', card_id := ''hidden_'' @ string_of_nat i\<rparr>))) \<and>
         (players g p = Some pl \<and> i < length (hand pl) \<and> hand pl ! i = SCard c \<and> isFaceUp c \<longrightarrow>
            get_hand_slot (sanitizeGameState g v) p i = SCard c) \<and>
         (drawnCard g = SCard d \<longrightarrow>
            drawnCard (sanitizeGameState g v) =
              (if status g \<noteq> Finished \<and> nth_opt (playerOrder g) (turnIndex g) \<noteq> Some v
               then SCard (d\<lparr>cvalue := ''?'', suit := ''?'', card_id := ''hidden_drawn''\<rparr>)
               else SCard d))"
proof (cases "status g = Lobby")
  case False
  then show ?thesis by (rule sanitize_dealt)
next
  case True
  from reachable_lobby_empty [OF assms] True
  have n: "cards_of (hand_of g p) = []" and d: "\<not> is_card (drawnCard g)"
    by (simp_all add: lobby_empty_def)
  have "\<not> (players g p = Some pl \<and> i < length (hand pl) \<and> hand pl ! i = SCard c)"
  proof
    assume a: "players g p = Some pl \<and> i < length (hand pl) \<and> hand pl ! i = SCard c"
    then have "SCard c \<in> set (hand pl)" by (metis nth_mem)
    then have "cards_of (hand pl) \<noteq> []" by (rule cards_of_member)
    with n a show False by simp
  qed
  moreover from d have "drawnCard g \<noteq> SCard d" by auto
  ultimately show ?thesis by blast
qed

text \<open>
  In the first deal, during phase1, Ann's first card is hidden from both players and
  her third card from Bob only; Bob's drawn card in \<open>pendingB\<close> is hidden from Ann.
\<close>

theorem sanitize_hides_cards_witness:
  "run_events createGameState (start_events deckA) = Inr dealtA \<and>
   run_events createGameState eventsB = Inr pendingB \<and>
   status dealtA = Phase1 \<and> \<not> isFaceUp (crd ''A'' ''spades'') \<and>
   get_hand_slot dealtA ''a'' 0 = SCard (crd ''A'' ''spades'') \<and>
   get_hand_slot (sanitizeGameState dealtA ''b'') ''a'' 0 =
     SCard ((crd ''A'' ''spades'')\<lparr>cvalue := ''?'', suit := ''?'', card_id := ''hidden_0''\<rparr>) \<and>
   get_hand_slot (sanitizeGameState dealtA ''a'') ''a'' 0 =
     SCard ((crd ''A'' ''spades'')\<lparr>cvalue := ''?'', suit := ''?'', card_id := ''hidden_0''\<rparr>) \<and>
   get_hand_slot dealtA ''a'' 2 = SCard (known (crd ''3'' ''spades'')) \<and>
   get_hand_slot (sanitizeGameState dealtA ''a'') ''a'' 2 = SCard (known (crd ''3'' ''spades'')) \<and>
   get_hand_slot (sanitizeGameState dealtA ''b'') ''a'' 2 =
     SCard ((known (crd ''3'' ''spades''))\<lparr>cvalue := ''?'', suit := ''?'', card_id := ''hidden_2''\<rparr>) \<and>
   status pendingB = Playing \<and> drawnCard pendingB = SCard (crd ''9'' ''clubs'') \<and>
   nth_opt (playerOrder pendingB) (turnIndex pendingB) = Some ''b'' \<and>
   drawnCard (sanitizeGameState pendingB ''a'') =
     SCard ((crd ''9'' ''clubs'')\<lparr>cvalue := ''?'', suit := ''?'', card_id := ''hidden_drawn''\<rparr>) \<and>
   drawnCard (sanitizeGameState pendingB ''b'') = SCard (crd ''9'' ''clubs'')"
proof -
  let ?pa = "ann [SCard (crd ''A'' ''spades''), SCard (crd ''2'' ''spades''),
              SCard (known (crd ''3'' ''spades'')), SCard (known (crd ''4'' ''spades''))]"
  have h: "status dealtA \<noteq> Lobby" "players dealtA ''a'' = Some ?pa"
    "status dealtA = Phase1"
    "\<not> isFaceUp (crd ''A'' ''spades'')" "\<not> knownToPlayer (crd ''A'' ''spades'')"
    "\<not> knownToOpponent (crd ''A'' ''spades'')"
    "\<not> isFaceUp (known (crd ''3'' ''spades''))" "knownToPlayer (known (crd ''3'' ''spades''))"
    "\<not> knownToOpponent (known (crd ''3'' ''spades''))"
    "hand ?pa ! 0 = SCard (crd ''A'' ''spades'')" "hand ?pa ! 2 = SCard (known (crd ''3'' ''spades''))"
    "length (hand ?pa) = 4"
    by (simp_all add: dealtA_def ann_def crd_def new_card_def known_def)
  have b: "status pendingB \<noteq> Lobby" "status pendingB = Playing"
    "drawnCard pendingB = SCard (crd ''9'' ''clubs'')"
    "nth_opt (playerOrder pendingB) (turnIndex pendingB) = Some ''b''"
    by (simp_all add: pendingB_def nth_opt_def)
  have rA: "run_events createGameState (start_events deckA) = Inr dealtA"
    using reach_dealtA [of "[]"] by simp
  have rB: "run_events createGameState eventsB = Inr pendingB"
    using reach_pendingB [of "[]"] by simp
  have n: "string_of_nat 0 = ''0''" "string_of_nat 2 = ''2''"
    by (simp_all add: string_of_nat.simps)
  note A = sanitize_hides_cards [OF rA, of "''a''" ?pa]
  have 1: "get_hand_slot (sanitizeGameState dealtA ''b'') ''a'' 0 =
     SCard ((crd ''A'' ''spades'')\<lparr>cvalue := ''?'', suit := ''?'', card_id := ''hidden_0''\<rparr>)"
    using A [of 0 "crd ''A'' ''spades''" "''b''"] h n by simp
  have 2: "get_hand_slot (sanitizeGameState dealtA ''a'') ''a'' 0 =
     SCard ((crd ''A'' ''spades'')\<lparr>cvalue := ''?'', suit := ''?'', card_id := ''hidden_0''\<rparr>)"
    using A [of 0 "crd ''A'' ''spades''" "''a''"] h n by simp
  have 3: "get_hand_slot (sanitizeGameState dealtA ''a'') ''a'' 2 = SCard (known (crd ''3'' ''spades''))"
    using A [of 2 "known (crd ''3'' ''spades'')" "''a''"] h n by simp
  have 4: "get_hand_slot (sanitizeGameState dealtA ''b'') ''a'' 2 =
     SCard ((known (crd ''3'' ''spades''))\<lparr>cvalue := ''?'', suit := ''?'', card_id := ''hidden_2''\<rparr>)"
    using A [of 2 "known (crd ''3'' ''spades'')" "''b''"] h n by simp
  have 5: "drawnCard (sanitizeGameState pendingB ''a'') =
     SCard ((crd ''9'' ''clubs'')\<lparr>cvalue := ''?'', suit := ''?'', card_id := ''hidden_drawn''\<rparr>)"
    using sanitize_hides_cards [OF rB, where v = "''a''" and d = "crd ''9'' ''clubs''"] b by simp
  have 6: "drawnCard (sanitizeGameState pendingB ''b'') = SCard (crd ''9'' ''clubs'')"
    using sanitize_hides_cards [OF rB, where v = "''b''" and d = "crd ''9'' ''clubs''"] b by simp
  have s: "get_hand_slot dealtA ''a'' 0 = SCard (crd ''A'' ''spades'')"
    "get_hand_slot dealtA ''a'' 2 = SCard (known (crd ''3'' ''spades''))"
    by (simp_all add: get_hand_slot_def h(2) js_get_def ann_def)
  show ?thesis
    using rA rB h(3,4) b(2,3,4) s 1 2 3 4 5 6 by simp
qed

section \<open>Conservation of the cards\<close>

text \<open>
  Claim C2 (the code departs from it). The claim fails in \<^verbatim>\<open>execute_stack\<close>. Let \<open>g\<close> be
  a game that a run reaches from \<open>createGameState\<close> and let the handler return \<open>g'\<close>.
  Either \<open>drawnCard\<close> is untouched and the multiset of card ids held by the deck, the
  discard pile, the hands and \<open>drawnCard\<close> is the same as before, or \<open>drawnCard\<close> is
  \<^verbatim>\<open>null\<close> afterwards and the ids are those of before without the drawn card: the
  handler ends the turn through \<^verbatim>\<open>checkEndGameAndAdvance\<close>, and \<^verbatim>\<open>advanceTurn\<close> overwrites
  a pending drawn card. The second case is the outcome whenever the chosen card
  matches the window, no ability results and the game goes on.
\<close>

theorem stack_loses_drawn_card:
  assumes "run_events createGameState es = Inr g" and "execute_stack g sid tid i k = Inr g'"
  shows "(drawnCard g' = drawnCard g \<and> card_ids g' = card_ids g
          \<or> drawnCard g' = SNull \<and> card_ids g' + slot_ids [drawnCard g] = card_ids g) \<and>
         (active (stackWindow g) \<and> caller (stackWindow g) = Some sid \<and>
          get_hand_slot g tid i = SCard c \<and> targetValue (stackWindow g) = Some (cvalue c) \<and>
          activeAbility g' = None \<and> status g' \<noteq> Finished \<longrightarrow>
            drawnCard g' = SNull \<and> card_ids g' + slot_ids [drawnCard g] = card_ids g)"
proof (rule conjI)
  from assms(1) have s: "seated g" by (rule reachable_seated)
  from s assms(2)
  show "drawnCard g' = drawnCard g \<and> card_ids g' = card_ids g
          \<or> drawnCard g' = SNull \<and> card_ids g' + slot_ids [drawnCard g] = card_ids g"
    by (rule execute_stack_loss)
  show "active (stackWindow g) \<and> caller (stackWindow g) = Some sid \<and>
          get_hand_slot g tid i = SCard c \<and> targetValue (stackWindow g) = Some (cvalue c) \<and>
          activeAbility g' = None \<and> status g' \<noteq> Finished \<longrightarrow>
            drawnCard g' = SNull \<and> card_ids g' + slot_ids [drawnCard g] = card_ids g"
  proof
    assume a: "active (stackWindow g) \<and> caller (stackWindow g) = Some sid \<and>
            get_hand_slot g tid i = SCard c \<and> targetValue (stackWindow g) = Some (cvalue c) \<and>
            activeAbility g' = None \<and> status g' \<noteq> Finished"
    let ?m = "stack_match g sid tid i k c"
    let ?g1 = "?m\<lparr>stackWindow := \<lparr>active = False, caller = None, targetValue = None\<rparr>\<rparr>"
    from a assms(2) have "stack_finish True ?m = Inr g'"
      by (intro execute_stack_match) simp_all
    from stack_finish_match_cases [OF this] a have "checkEndGameAndAdvance ?g1 = Inr g'"
      by simp
    with a have "advanceTurn ?g1 = Inr g'"
      by (intro checkEndGameAndAdvance_turn) simp_all
    from advanceTurn_loss [OF this]
    have l: "drawnCard g' = SNull" "card_ids g' + slot_ids [drawnCard g] = card_ids ?m"
      by simp_all
    from a have c: "get_hand_slot g tid i = SCard c" by simp
    then have p: "players g tid \<noteq> None"
      by (cases "players g tid") (simp_all add: get_hand_slot_def)
    have "card_ids ?m = card_ids g"
      by (rule stack_match_card_ids [OF s p c])
    with l show "drawnCard g' = SNull \<and> card_ids g' + slot_ids [drawnCard g] = card_ids g"
      by simp
  qed
qed

text \<open>
  The loss happens: after \<open>eventsA\<close> (a deal of \<open>deckA\<close>, a rearrangement of \<open>createDeck\<close>)
  Bob holds the 9 of clubs he drew and has called a
  stack on the discarded 7 of spades; he matches it with his 7 of clubs, the turn
  passes to Ann and the 9 of clubs is in no container any more: 53 ids are left
  of 54.
\<close>

theorem stack_loses_drawn_card_witness:
  "mset deckA = mset createDeck \<and>
   run_events createGameState eventsA = Inr stackedA \<and>
   status stackedA = Playing \<and>
   drawnCard stackedA = SCard (crd ''9'' ''clubs'') \<and>
   active (stackWindow stackedA) \<and> caller (stackWindow stackedA) = Some ''b'' \<and>
   get_hand_slot stackedA ''b'' 0 = SCard (crd ''7'' ''clubs'') \<and>
   targetValue (stackWindow stackedA) = Some ''7'' \<and>
   execute_stack stackedA ''b'' ''b'' 0 None = Inr lostA \<and>
   activeAbility lostA = None \<and> status lostA = Playing \<and>
   drawnCard lostA = SNull \<and>
   add_mset ''9_clubs'' (card_ids lostA) = card_ids stackedA \<and>
   size (card_ids stackedA) = 54 \<and> size (card_ids lostA) = 53 \<and>
   count (card_ids stackedA) ''9_clubs'' = 1 \<and> count (card_ids lostA) ''9_clubs'' = 0"
proof -
  have r: "run_events createGameState eventsA = Inr stackedA"
    using reach_stackedA [of "[]"] by simp
  have h: "status stackedA = Playing" "drawnCard stackedA = SCard (crd ''9'' ''clubs'')"
    "active (stackWindow stackedA)" "caller (stackWindow stackedA) = Some ''b''"
    "get_hand_slot stackedA ''b'' 0 = SCard (crd ''7'' ''clubs'')"
    "targetValue (stackWindow stackedA) = Some ''7''"
    "cvalue (crd ''7'' ''clubs'') = ''7''"
    by (simp_all add: stackedA_def discardedA_def playingA_def dealtA_def get_hand_slot_def
          bob_def bobA_def js_get_def crd_def new_card_def)
  have l: "activeAbility lostA = None" "status lostA = Playing"
    by (simp_all add: lostA_def stackedA_def discardedA_def playingA_def dealtA_def)
  from stack_loses_drawn_card [OF r stack_stackedA, of "crd ''7'' ''clubs''"] h l
  have "drawnCard lostA = SNull \<and> card_ids lostA + slot_ids [drawnCard stackedA] = card_ids stackedA"
    by simp
  then have d: "drawnCard lostA = SNull" "add_mset ''9_clubs'' (card_ids lostA) = card_ids stackedA"
    unfolding h(2) by (simp_all add: crd_def new_card_def)
  show ?thesis
    using deckA_permutation r h(1-6) stack_stackedA l d card_ids_stackedA card_ids_lostA by simp
qed

end
